theory Spec2Isabelle
  imports Complex_Main
begin

section \<open>Values received from the gateway\<close>

text \<open>
  \<^verbatim>\<open>onWsMsg\<close> works on the result of \<^verbatim>\<open>JSON.parse\<close>: a tree of freshly created
  objects that nothing else refers to, so the tree itself is the value. A number is
  the rational it denotes (the code only tests numbers for zero and compares them
  with 5, 2048 and 32768). An object is its list of properties in insertion order.
  \<open>JUndefined\<close> is the result of reading a property that is not there; it can be
  stored (\<^verbatim>\<open>item.mType = item.subType\<close>).
\<close>

datatype jsval =
    JUndefined
  | JNull
  | JBool bool
  | JNum rat
  | JStr string
  | JArr "jsval list"
  | JObj "(string \<times> jsval) list"

text \<open>The truth value JavaScript gives a value in \<^verbatim>\<open>if (v)\<close>, \<^verbatim>\<open>!v\<close> and \<^verbatim>\<open>v || w\<close>.\<close>

fun truthy :: "jsval \<Rightarrow> bool" where
  "truthy JUndefined = False"
| "truthy JNull = False"
| "truthy (JBool b) = b"
| "truthy (JNum n) = (n \<noteq> 0)"
| "truthy (JStr s) = (s \<noteq> [])"
| "truthy (JArr xs) = True"
| "truthy (JObj fs) = True"

text \<open>
  Reading the property \<open>k\<close> of \<open>v\<close>. On \<^verbatim>\<open>null\<close> and \<^verbatim>\<open>undefined\<close> JavaScript throws a
  TypeError: the result is \<open>None\<close>. On an object it is the property's value or
  \<^verbatim>\<open>undefined\<close>. None of the names the code reads (\<^verbatim>\<open>data\<close>, \<^verbatim>\<open>type\<close>, \<^verbatim>\<open>cmdId\<close>,
  \<^verbatim>\<open>event\<close>, \<^verbatim>\<open>list\<close>, \<^verbatim>\<open>msgType\<close>, \<^verbatim>\<open>subType\<close>, \<^verbatim>\<open>member\<close>, \<^verbatim>\<open>external\<close>, \<^verbatim>\<open>info\<close>,
  \<^verbatim>\<open>items\<close>, \<^verbatim>\<open>error\<close>, \<^verbatim>\<open>success\<close>, \<^verbatim>\<open>msg\<close> and the nine field names below) is a
  property of a string, number, boolean or array, so there the result is
  \<^verbatim>\<open>undefined\<close>.
\<close>

fun getField :: "(string \<times> jsval) list \<Rightarrow> string \<Rightarrow> jsval" where
  "getField fs k = (case map_of fs k of None \<Rightarrow> JUndefined | Some v \<Rightarrow> v)"

fun getProp :: "jsval \<Rightarrow> string \<Rightarrow> jsval option" where
  "getProp JUndefined k = None"
| "getProp JNull k = None"
| "getProp (JObj fs) k = Some (getField fs k)"
| "getProp (JBool b) k = Some JUndefined"
| "getProp (JNum n) k = Some JUndefined"
| "getProp (JStr s) k = Some JUndefined"
| "getProp (JArr xs) k = Some JUndefined"

text \<open>
  Writing a property of an object: an existing property keeps its place, a new one
  goes to the end.
\<close>

fun put :: "string \<Rightarrow> jsval \<Rightarrow> (string \<times> jsval) list \<Rightarrow> (string \<times> jsval) list" where
  "put k v [] = [(k, v)]"
| "put k v (p # ps) = (if fst p = k then (k, v) # ps else p # put k v ps)"

text \<open>
  The objects the caller hands to \<^verbatim>\<open>sendCmd\<close> and \<^verbatim>\<open>asyncSend\<close> are shared with the
  caller and changed in place, so they live in a store: a value is a primitive or
  the address of an object, an object is its list of properties, and the store is
  the list of the objects created so far: the address of an object is its index, a
  new object goes to the end.
\<close>

datatype hval = HUndefined | HNull | HBool bool | HNum rat | HStr string | HRef nat

type_synonym hobj = "(string \<times> hval) list"

type_synonym heap = "hobj list"

text \<open>
  What the code uses and this file does not hold: \<^verbatim>\<open>JSON.parse\<close> (\<open>None\<close> when it
  throws; it takes any value and converts it to a string first), the conversion to
  a string that \<^verbatim>\<open>'RET#' + cmdId\<close> applies to a value that is not a string,
  \<^verbatim>\<open>JSON.stringify\<close> (\<open>None\<close> when it throws), and \<^verbatim>\<open>Helper.toCamelCase\<close> and
  \<^verbatim>\<open>Helper.toUnderLine\<close> of \<^verbatim>\<open>./helper\<close>. They are parameters of the model.
\<close>

record builtins =
  JSON_parse :: "jsval \<Rightarrow> jsval option"
  toString :: "jsval \<Rightarrow> string"
  toCamelCase :: "jsval \<Rightarrow> jsval"
  toStringH :: "heap \<Rightarrow> hval \<Rightarrow> string"
  JSON_stringify :: "heap \<Rightarrow> hval \<Rightarrow> string option"
  toUnderLine :: "heap \<Rightarrow> hval \<Rightarrow> heap \<times> hval"

subsection \<open>Decoding the fields that hold JSON text (lines 2366 to 2432)\<close>

text \<open>
  \<^verbatim>\<open>if (o.k) { try { o.k = JSON.parse(o.k) } catch (e) { } }\<close>. A value with a truthy
  property \<open>k\<close> is an object.
\<close>

fun parseField :: "builtins \<Rightarrow> string \<Rightarrow> jsval \<Rightarrow> jsval" where
  "parseField env k (JObj fs) =
     (if truthy (getField fs k)
      then (case JSON_parse env (getField fs k) of
              Some p \<Rightarrow> JObj (put k p fs)
            | None \<Rightarrow> JObj fs)
      else JObj fs)"
| "parseField env k v = v"

definition fields :: "string list" where
  "fields = [''BrandInfo'', ''externalInfo'', ''MMBizMenu'', ''RegisterSource'',
             ''VerifySource'', ''Location'', ''cookies'', ''brandInfo'', ''BindWxaInfo'']"

text \<open>
  \<^verbatim>\<open>fields.forEach(field => { if (!o[field]) { return }; try { o[field] =
  JSON.parse(o[field]) } catch (e) { } })\<close>: \<open>None\<close> when \<open>o\<close> is \<^verbatim>\<open>null\<close>, where
  \<^verbatim>\<open>o[field]\<close> throws.
\<close>

fun parseFields :: "builtins \<Rightarrow> jsval \<Rightarrow> jsval option" where
  "parseFields env JNull = None"
| "parseFields env JUndefined = None"
| "parseFields env v = Some (fold (parseField env) fields v)"

text \<open>
  A \<^verbatim>\<open>forEach\<close> whose callback may throw: the elements before the throw keep what
  the callback did to them, the others are left as they were. The flag says
  whether it threw.
\<close>

fun forEachTry :: "('a \<Rightarrow> 'a option) \<Rightarrow> 'a list \<Rightarrow> 'a list \<times> bool" where
  "forEachTry f [] = ([], False)"
| "forEachTry f (x # xs) =
     (case f x of
        None \<Rightarrow> (x # xs, True)
      | Some y \<Rightarrow> (let (ys, t) = forEachTry f xs in (y # ys, t)))"

text \<open>
  The callback of \<^verbatim>\<open>info.data.forEach\<close>: \<^verbatim>\<open>if (!d_item.items) { return }\<close>, then
  \<^verbatim>\<open>_item.items.forEach\<close> over the search results. The result is the element as the
  callback left it and whether the callback threw (a \<^verbatim>\<open>null\<close> element, \<^verbatim>\<open>items\<close>
  that is not an array, a \<^verbatim>\<open>null\<close> search result).
\<close>

fun parseItem :: "builtins \<Rightarrow> jsval \<Rightarrow> jsval \<times> bool" where
  "parseItem env (JObj fs) =
     (if \<not> truthy (getField fs ''items'') then (JObj fs, False)
      else (case getField fs ''items'' of
              JArr its \<Rightarrow>
                (let (its', t) = forEachTry (parseFields env) its
                 in (JObj (put ''items'' (JArr its') fs), t))
            | _ \<Rightarrow> (JObj fs, True)))"
| "parseItem env JNull = (JNull, True)"
| "parseItem env JUndefined = (JUndefined, True)"
| "parseItem env v = (v, False)"

fun parseItems :: "builtins \<Rightarrow> jsval list \<Rightarrow> jsval list" where
  "parseItems env [] = []"
| "parseItems env (x # xs) =
     (case parseItem env x of
        (y, True) \<Rightarrow> y # xs
      | (y, False) \<Rightarrow> y # parseItems env xs)"

text \<open>
  The body of the \<^verbatim>\<open>try\<close> of lines 2378 to 2420 after \<^verbatim>\<open>info\<close> has been parsed:
  the result is \<^verbatim>\<open>info\<close> as the block leaves it, wherever it stopped.
\<close>

definition parseInfo :: "builtins \<Rightarrow> jsval \<Rightarrow> jsval" where
  "parseInfo env info =
     (case parseFields env info of
        None \<Rightarrow> info
      | Some info' \<Rightarrow>
          (case info' of
             JObj fs \<Rightarrow>
               (case getField fs ''data'' of
                  JArr ds \<Rightarrow> JObj (put ''data'' (JArr (parseItems env ds)) fs)
                | _ \<Rightarrow> info')
           | _ \<Rightarrow> info'))"

text \<open>Lines 2370 to 2428, on a truthy \<^verbatim>\<open>data.data.data\<close>.\<close>

fun parseInfoField :: "builtins \<Rightarrow> jsval \<Rightarrow> jsval" where
  "parseInfoField env (JObj fs) =
     (if truthy (getField fs ''info'')
      then (case JSON_parse env (getField fs ''info'') of
              Some p \<Rightarrow> JObj (put ''info'' (parseInfo env p) fs)
            | None \<Rightarrow> JObj fs)
      else JObj fs)"
| "parseInfoField env v = v"

definition parseExtended :: "builtins \<Rightarrow> jsval \<Rightarrow> jsval" where
  "parseExtended env d =
     parseField env ''member'' (parseInfoField env (parseField env ''external'' d))"

text \<open>
  Lines 2366 to 2432 on the parsed frame \<open>data\<close>: \<open>None\<close> when \<^verbatim>\<open>data.data\<close> throws
  (the frame is \<^verbatim>\<open>null\<close>). A frame with a truthy \<^verbatim>\<open>data\<close> is an object, and so is a
  \<^verbatim>\<open>data.data\<close> with a truthy \<^verbatim>\<open>data\<close>.
\<close>

definition parseInner :: "builtins \<Rightarrow> jsval \<Rightarrow> jsval" where
  "parseInner env d =
     (case d of
        JObj fs \<Rightarrow>
          (if truthy (getField fs ''data'')
           then JObj (put ''data'' (parseExtended env (getField fs ''data'')) fs)
           else d)
      | _ \<Rightarrow> d)"

definition normalizeFrame :: "builtins \<Rightarrow> jsval \<Rightarrow> jsval option" where
  "normalizeFrame env data =
     (case data of
        JNull \<Rightarrow> None
      | JUndefined \<Rightarrow> None
      | JObj fs \<Rightarrow>
          (if truthy (getField fs ''data'')
           then Some (JObj (put ''data'' (toCamelCase env (parseInner env (getField fs ''data''))) fs))
           else Some data)
      | _ \<Rightarrow> Some data)"

section \<open>The client\<close>

text \<open>
  The errors the code creates, named after what they report: the two failures of
  line 2362 (the frame is not a string, \<^verbatim>\<open>JSON.parse\<close> threw), a push event without
  a list (line 2504), a reply nobody waits for (line 2482, with the reply's
  \<^verbatim>\<open>cmdId\<close>), a warning of the server (line 2491, with \<^verbatim>\<open>data.data.error\<close>), a
  connection started too early (line 74), a request that timed out (line 2335, with
  the value of \<^verbatim>\<open>timeout\<close>), the rejections of \<^verbatim>\<open>_send\<close> (lines 108 and 112), a
  missing \<^verbatim>\<open>cmdId\<close> (line 2326), and the TypeError of JavaScript.
\<close>

datatype failure =
    NotAString
  | ParseFailed
  | PushMalformed
  | NotListened jsval
  | ServerWarning jsval
  | RateLimited
  | TimedOut int
  | NotConnected
  | SendFailed string
  | NoCmdId
  | TypeError

datatype arg = AVal jsval | AErr failure

datatype ready = CONNECTING | OPEN | CLOSING | CLOSED

text \<open>
  What the client does, in the order it does it: events given to the subscribers
  (\<^verbatim>\<open>this.emit\<close> of a public event), \<^verbatim>\<open>clearTimeout\<close>, \<^verbatim>\<open>removeAllListeners\<close>, the calls
  of \<^verbatim>\<open>res\<close> and \<^verbatim>\<open>rej\<close> in \<^verbatim>\<open>getCmdRecv\<close>, the call of \<^verbatim>\<open>res\<close> in \<^verbatim>\<open>asyncSend\<close>
  (line 138), the calls of \<^verbatim>\<open>reject\<close> and \<^verbatim>\<open>resolve\<close> in \<^verbatim>\<open>_send\<close>, \<^verbatim>\<open>ws.terminate\<close>,
  \<^verbatim>\<open>new Websocket\<close> and \<^verbatim>\<open>ws.send\<close> with the text it is given. Requests and sockets
  are numbered in the order of their creation.
\<close>

datatype action =
    Emit string "arg list"
  | ClearTimeout nat
  | RemoveAllListeners string
  | RecvRes nat jsval
  | RecvRej nat failure
  | AsyncRes nat jsval
  | SendRej nat failure
  | SendRes nat
  | Terminate nat
  | NewSocket nat
  | WsSend nat string

text \<open>
  The state: the fields of the class (\<^verbatim>\<open>connected\<close>, \<^verbatim>\<open>_lastStartTime\<close>, \<^verbatim>\<open>ws\<close>, which is
  \<open>None\<close> while it is the \<^verbatim>\<open>{}\<close> of the constructor), the state of each socket, the
  \<^verbatim>\<open>once\<close> listeners of \<^verbatim>\<open>getCmdRecv\<close> by event name in the order of registration,
  the running timers (the time a timer fires at and the \<^verbatim>\<open>cmdId\<close> and \<^verbatim>\<open>timeout\<close> of
  its callback), the command of each request that came through \<^verbatim>\<open>sendCmd\<close>, the
  store, what was done so far, and whether the caller has registered a listener for
  the \<^verbatim>\<open>error\<close> event (the class registers none).
\<close>

record client =
  connected :: bool
  lastStartTime :: int
  ws :: "nat option"
  readyState :: "nat \<Rightarrow> ready"
  nsock :: nat
  listeners :: "string \<Rightarrow> nat list"
  timers :: "nat \<Rightarrow> (int \<times> string \<times> int) option"
  origin :: "nat \<Rightarrow> string option"
  nreq :: nat
  heap :: heap
  trace :: "action list"
  onError :: bool

text \<open>
  \<^verbatim>\<open>this.emit\<close> of a public event other than \<^verbatim>\<open>error\<close>: the event and its arguments
  are recorded. What the subscribers do with it is not part of the client; they are
  taken not to throw.
\<close>

definition emit :: "string \<Rightarrow> arg list \<Rightarrow> client \<Rightarrow> client" where
  "emit name args st = st\<lparr>trace := trace st @ [Emit name args]\<rparr>"

text \<open>
  \<^verbatim>\<open>this.emit('error', new Error(...))\<close>: with a listener for \<^verbatim>\<open>error\<close> the event is
  recorded as any other; without one, the \<^verbatim>\<open>emit\<close> of Node throws the error it was
  given, and nothing is recorded. The result is the exception, if there is one, and
  the client.
\<close>

definition emitError :: "failure \<Rightarrow> client \<Rightarrow> failure option \<times> client" where
  "emitError e st =
     (if onError st then (None, emit ''error'' [AErr e] st) else (Some e, st))"

text \<open>The caller's \<^verbatim>\<open>client.on('error', f)\<close>.\<close>

definition subscribeError :: "client \<Rightarrow> client" where
  "subscribeError st = st\<lparr>onError := True\<rparr>"

subsection \<open>Replies (\<^verbatim>\<open>getCmdRecv\<close>, lines 2338 to 2342, and what follows from them)\<close>

text \<open>\<^verbatim>\<open>'RET#' + cmdId\<close>: a string is itself, any other value is converted.\<close>

definition retName :: "builtins \<Rightarrow> jsval \<Rightarrow> string" where
  "retName env c = ''RET#'' @ (case c of JStr s \<Rightarrow> s | _ \<Rightarrow> toString env c)"

text \<open>The listener of request \<open>r\<close>: \<^verbatim>\<open>clearTimeout(timeOutHandle); res(data)\<close>.\<close>

definition listener :: "jsval \<Rightarrow> nat \<Rightarrow> client \<Rightarrow> client" where
  "listener data r st =
     st\<lparr>timers := (timers st)(r := None),
        trace := trace st @ [ClearTimeout r, RecvRes r data]\<rparr>"

text \<open>
  Line 136 to 139, run when the promise of \<^verbatim>\<open>getCmdRecv\<close> is fulfilled with the
  frame: \<^verbatim>\<open>res(data.data)\<close>.
\<close>

definition asyncThen :: "jsval \<Rightarrow> nat \<Rightarrow> client \<Rightarrow> client" where
  "asyncThen data r st =
     (case getProp data ''data'' of
        None \<Rightarrow> st
      | Some v \<Rightarrow> st\<lparr>trace := trace st @ [AsyncRes r v]\<rparr>)"

text \<open>
  Lines 172 to 176, run when the promise of \<^verbatim>\<open>asyncSend\<close> is fulfilled, for a
  request of \<^verbatim>\<open>sendCmd\<close>: \<^verbatim>\<open>this.emit('cmdRet', cmd, ret)\<close>.
\<close>

definition cmdThen :: "jsval \<Rightarrow> nat \<Rightarrow> client \<Rightarrow> client" where
  "cmdThen data r st =
     (case (origin st r, getProp data ''data'') of
        (Some cmd, Some v) \<Rightarrow> emit ''cmdRet'' [AVal (JStr cmd), AVal v] st
      | _ \<Rightarrow> st)"

text \<open>
  \<^verbatim>\<open>this.emit('RET#' + data.cmdId, data)\<close>: every listener of the name is called
  once, in the order of registration, and removed; the result says whether there
  was one. The reactions of the promises run when the handler of the frame has
  returned, those of \<^verbatim>\<open>asyncSend\<close> before those of \<^verbatim>\<open>sendCmd\<close>; the handler does
  nothing after an \<^verbatim>\<open>emit\<close> that found a listener, so they are run here.
\<close>

definition emitRet :: "string \<Rightarrow> jsval \<Rightarrow> client \<Rightarrow> bool \<times> client" where
  "emitRet name data st =
     (let rs = listeners st name;
          st1 = fold (listener data) rs (st\<lparr>listeners := (listeners st)(name := [])\<rparr>);
          st2 = fold (asyncThen data) rs st1;
          st3 = fold (cmdThen data) rs st2
      in (rs \<noteq> [], st3))"

subsection \<open>Dispatch (\<^verbatim>\<open>onWsMsg\<close>, lines 2434 to 2534)\<close>

text \<open>
  The callback of \<^verbatim>\<open>data.data.list.forEach\<close> (lines 2508 to 2523): \<open>None\<close> when it
  throws, which is when the item is \<^verbatim>\<open>null\<close>. An item with a \<^verbatim>\<open>msgType\<close> is an object.
\<close>

definition memberOf :: "builtins \<Rightarrow> (string \<times> jsval) list \<Rightarrow> (string \<times> jsval) list" where
  "memberOf env fs =
     (if truthy (getField fs ''member'')
      then (case JSON_parse env (getField fs ''member'') of
              Some p \<Rightarrow> put ''member'' (if truthy p then p else JArr []) fs
            | None \<Rightarrow> fs)
      else fs)"

definition mTypeOf :: "(string \<times> jsval) list \<Rightarrow> jsval" where
  "mTypeOf fs =
     (if getField fs ''msgType'' = JNum 5 then getField fs ''subType''
      else getField fs ''msgType'')"

fun pushItem :: "builtins \<Rightarrow> jsval \<Rightarrow> client \<Rightarrow> client option" where
  "pushItem env (JObj fs) st =
     (let type = getField fs ''msgType'' in
      if type = JUndefined \<or> type = JNum 2048 \<or> type = JNum 32768 then Some st
      else Some (emit ''push'' [AVal (JObj (memberOf env (put ''mType'' (mTypeOf fs) fs)))] st))"
| "pushItem env JNull st = None"
| "pushItem env JUndefined st = None"
| "pushItem env v st = Some st"

fun pushAll :: "builtins \<Rightarrow> jsval list \<Rightarrow> client \<Rightarrow> failure option \<times> client" where
  "pushAll env [] st = (None, st)"
| "pushAll env (item # items) st =
     (case pushItem env item st of
        None \<Rightarrow> (Some TypeError, st)
      | Some st' \<Rightarrow> pushAll env items st')"

definition plainEvents :: "string list" where
  "plainEvents = [''qrcode'', ''scan'', ''login'', ''loaded'', ''logout'', ''over'', ''sns'']"

text \<open>
  The inner \<^verbatim>\<open>switch (data.event)\<close> on the object \<open>JObj fs\<close>, with \<open>d\<close> its \<^verbatim>\<open>data\<close>.
  Reading \<^verbatim>\<open>data.data.error\<close> or \<^verbatim>\<open>data.data.msg\<close> throws when \<open>d\<close> is \<^verbatim>\<open>null\<close> or
  \<^verbatim>\<open>undefined\<close>, before anything is emitted.
\<close>

definition userEvent :: "builtins \<Rightarrow> (string \<times> jsval) list \<Rightarrow> client \<Rightarrow> failure option \<times> client" where
  "userEvent env fs st =
     (let d = getField fs ''data''; e = getField fs ''event'' in
      if e = JStr ''warn'' then
        (case getProp d ''error'' of
           None \<Rightarrow> (Some TypeError, st)
         | Some er \<Rightarrow>
             (None, emit ''warn'' [AErr (ServerWarning er), AVal (getField fs ''success'')] st))
      else if e \<in> JStr ` set plainEvents then
        (case (e, getProp d ''msg'') of
           (JStr name, Some m) \<Rightarrow>
             (None, emit name [AVal (if truthy d then d else JObj []), AVal m] st)
         | _ \<Rightarrow> (Some TypeError, st))
      else if e = JStr ''push'' then
        (if \<not> truthy d then emitError PushMalformed st
         else (case getProp d ''list'' of
                 Some (JArr (item # items)) \<Rightarrow> pushAll env (item # items) st
               | _ \<Rightarrow> emitError PushMalformed st))
      else (None, emit ''other'' [AVal (JObj fs)] st))"

text \<open>
  Lines 2434 to 2534 on the frame after lines 2366 to 2432. The result is the
  exception that leaves \<^verbatim>\<open>onWsMsg\<close>, if one does, and the state.
\<close>

definition dispatch :: "builtins \<Rightarrow> jsval \<Rightarrow> client \<Rightarrow> failure option \<times> client" where
  "dispatch env data st =
     (let st1 = emit ''msg'' [AVal data] st in
      case data of
        JObj fs \<Rightarrow>
          (if getField fs ''type'' = JStr ''cmdRet'' then
             (if truthy (getField fs ''cmdId'') then
                (let (hasOn, st2) = emitRet (retName env (getField fs ''cmdId'')) data st1
                 in (None, if hasOn then st2
                           else emit ''warn'' [AErr (NotListened (getField fs ''cmdId''))] st2))
              else (None, st1))
           else if getField fs ''type'' = JStr ''userEvent'' then userEvent env fs st1
           else (None, emit ''other'' [AVal data] st1))
      | JNull \<Rightarrow> (Some TypeError, st1)
      | JUndefined \<Rightarrow> (Some TypeError, st1)
      | _ \<Rightarrow> (None, emit ''other'' [AVal data] st1))"

text \<open>
  What the socket hands to the \<^verbatim>\<open>message\<close> handler: a string, or something that is
  not one.
\<close>

datatype wsdata = Text string | Binary "nat list"

definition onWsMsg :: "builtins \<Rightarrow> wsdata \<Rightarrow> client \<Rightarrow> failure option \<times> client" where
  "onWsMsg env msg st =
     (case msg of
        Binary bs \<Rightarrow> emitError NotAString st
      | Text s \<Rightarrow>
          (case JSON_parse env (JStr s) of
             None \<Rightarrow> emitError ParseFailed st
           | Some data \<Rightarrow>
               (case normalizeFrame env data of
                  None \<Rightarrow> (Some TypeError, st)
                | Some d \<Rightarrow> dispatch env d st)))"

section \<open>Sending\<close>

fun truthyH :: "hval \<Rightarrow> bool" where
  "truthyH HUndefined = False"
| "truthyH HNull = False"
| "truthyH (HBool b) = b"
| "truthyH (HNum n) = (n \<noteq> 0)"
| "truthyH (HStr s) = (s \<noteq> [])"
| "truthyH (HRef a) = True"

fun hfield :: "hobj \<Rightarrow> string \<Rightarrow> hval" where
  "hfield fs k = (case map_of fs k of None \<Rightarrow> HUndefined | Some v \<Rightarrow> v)"

fun hput :: "string \<Rightarrow> hval \<Rightarrow> hobj \<Rightarrow> hobj" where
  "hput k v [] = [(k, v)]"
| "hput k v (p # ps) = (if fst p = k then (k, v) # ps else p # hput k v ps)"

text \<open>\<^verbatim>\<open>delete obj.k\<close>\<close>

definition hdelete :: "string \<Rightarrow> hobj \<Rightarrow> hobj" where
  "hdelete k fs = filter (\<lambda>p. fst p \<noteq> k) fs"

definition alloc :: "hobj \<Rightarrow> heap \<Rightarrow> nat \<times> heap" where
  "alloc fs h = (length h, h @ [fs])"

definition retNameH :: "builtins \<Rightarrow> heap \<Rightarrow> hval \<Rightarrow> string" where
  "retNameH env h c = ''RET#'' @ (case c of HStr s \<Rightarrow> s | _ \<Rightarrow> toStringH env h c)"

text \<open>
  The delay \<^verbatim>\<open>setTimeout\<close> of Node uses: a delay below 1 or above 2147483647 is
  replaced by 1.
\<close>

definition timerDelay :: "int \<Rightarrow> int" where
  "timerDelay d = (if d < 1 \<or> 2147483647 < d then 1 else d)"

text \<open>
  \<^verbatim>\<open>getCmdRecv\<close> (lines 2324 to 2344) for request \<open>r\<close> at time \<open>now\<close>: \<open>None\<close> when it
  throws for a falsy \<^verbatim>\<open>cmdId\<close> (its promise is then rejected and nothing is
  registered). Otherwise the timer is started with \<^verbatim>\<open>timeout * 1000\<close> and the listener
  is added after those the name already has.
\<close>

definition getCmdRecv :: "builtins \<Rightarrow> hval \<Rightarrow> int \<Rightarrow> int \<Rightarrow> nat \<Rightarrow> client \<Rightarrow> client option" where
  "getCmdRecv env cmdId timeout now r st =
     (if \<not> truthyH cmdId then None
      else (let name = retNameH env (heap st) cmdId in
            Some (st\<lparr>timers := (timers st)(r \<mapsto> (now + timerDelay (timeout * 1000), name, timeout)),
                     listeners := (listeners st)(name := listeners st name @ [r])\<rparr>)))"

text \<open>
  The callback of the timer of request \<open>r\<close> (lines 2333 to 2336), which the runtime
  calls at a time \<open>now\<close> not before the one the timer was set for, and only while
  the timer has not been cleared: \<^verbatim>\<open>this.removeAllListeners(cmdId); rej(...)\<close>. Nothing
  reacts to the rejection: line 136 gives \<^verbatim>\<open>then\<close> no second function.
\<close>

definition timeoutFired :: "nat \<Rightarrow> int \<Rightarrow> client \<Rightarrow> client" where
  "timeoutFired r now st =
     (case timers st r of
        None \<Rightarrow> st
      | Some (due, name, timeout) \<Rightarrow>
          (if now < due then st
           else st\<lparr>timers := (timers st)(r := None),
                   listeners := (listeners st)(name := []),
                   trace := trace st @ [RemoveAllListeners name, RecvRej r (TimedOut (timeout * 1000))]\<rparr>))"

text \<open>
  \<^verbatim>\<open>_send\<close> (lines 105 to 118) for request \<open>r\<close>. Line 108 rejects and goes on to line
  110. There, without a socket, \<^verbatim>\<open>this.ws.send\<close> is not a function and the TypeError
  rejects the promise again; with a socket, \<^verbatim>\<open>ws.send\<close> is called with the text,
  whatever the state of the socket. Its callback comes later (\<open>sendCallback\<close>).
\<close>

definition priv_send :: "builtins \<Rightarrow> hval \<Rightarrow> nat \<Rightarrow> client \<Rightarrow> client" where
  "priv_send env data r st =
     (let st1 = (if \<not> connected st \<or> ws st = None
                 then st\<lparr>trace := trace st @ [SendRej r NotConnected]\<rparr> else st)
      in case ws st1 of
           None \<Rightarrow> st1\<lparr>trace := trace st1 @ [SendRej r TypeError]\<rparr>
         | Some s \<Rightarrow>
             (case JSON_stringify env (heap st1) data of
                None \<Rightarrow> st1\<lparr>trace := trace st1 @ [SendRej r TypeError]\<rparr>
              | Some text \<Rightarrow> st1\<lparr>trace := trace st1 @ [WsSend s text]\<rparr>))"

text \<open>The callback of \<^verbatim>\<open>ws.send\<close> (lines 110 to 116), with the error or without.\<close>

definition sendCallback :: "nat \<Rightarrow> string option \<Rightarrow> client \<Rightarrow> client" where
  "sendCallback r e st =
     (case e of
        Some m \<Rightarrow> st\<lparr>trace := trace st @ [SendRej r (SendFailed m)]\<rparr>
      | None \<Rightarrow> st\<lparr>trace := trace st @ [SendRes r]\<rparr>)"

text \<open>
  \<^verbatim>\<open>asyncSend\<close> (lines 129 to 149) with the identifier \<^verbatim>\<open>UUID.v1()\<close> would return and
  the time. \<open>Inl\<close> is the exception of line 130 or 131 (the argument is not an
  object, so reading or writing its \<^verbatim>\<open>cmdId\<close> throws in strict mode), before anything
  is registered or sent; \<open>Inr\<close> gives the number of the request whose promise is
  returned. Neither
  \<^verbatim>\<open>getCmdRecv\<close> nor \<^verbatim>\<open>_send\<close> throws (both are \<^verbatim>\<open>async\<close> and return a promise), so
  line 146 is never reached and \<^verbatim>\<open>rej\<close> is never called.
\<close>

definition asyncSend ::
  "builtins \<Rightarrow> hval \<Rightarrow> int option \<Rightarrow> string \<Rightarrow> int \<Rightarrow> client \<Rightarrow> failure + (nat \<times> client)" where
  "asyncSend env data timeout uuid now st =
     (case data of
        HRef a \<Rightarrow>
          (if a < length (heap st) then
             (let fs = heap st ! a;
                  fs' = (if \<not> truthyH (hfield fs ''cmdId'') then hput ''cmdId'' (HStr uuid) fs else fs);
                  r = nreq st;
                  st1 = st\<lparr>heap := (heap st)[a := fs'], nreq := Suc r\<rparr>;
                  st2 = (case getCmdRecv env (hfield fs' ''cmdId'')
                                (case timeout of None \<Rightarrow> 30000 | Some t \<Rightarrow> t) now r st1 of
                           None \<Rightarrow> st1
                         | Some st' \<Rightarrow> st')
              in Inr (r, priv_send env data r st2))
           else Inl TypeError)
      | _ \<Rightarrow> Inl TypeError)"

text \<open>\<^verbatim>\<open>clearRawMsg\<close> (lines 2544 to 2549) on a truthy value: an object loses \<^verbatim>\<open>data\<close>.\<close>

definition clearRawMsg :: "hval \<Rightarrow> heap \<Rightarrow> heap" where
  "clearRawMsg obj h =
     (case obj of
        HRef b \<Rightarrow> (if b < length h then h[b := hdelete ''data'' (h ! b)] else h)
      | _ \<Rightarrow> h)"

text \<open>
  Lines 161 to 165 on the payload \<open>data\<close>: \<open>None\<close> when \<^verbatim>\<open>data.rawMsgData\<close> throws. A
  payload that is not an object has no \<^verbatim>\<open>rawMsgData\<close>.
\<close>

definition cleanRaw :: "builtins \<Rightarrow> hval \<Rightarrow> heap \<Rightarrow> heap option" where
  "cleanRaw env data h =
     (case data of
        HNull \<Rightarrow> None
      | HUndefined \<Rightarrow> None
      | HRef a \<Rightarrow>
          (if a < length h then
             (let raw = hfield (h ! a) ''rawMsgData'' in
              if truthyH raw then
                (let (h', v) = toUnderLine env (clearRawMsg raw h) raw
                 in Some (if a < length h' then h'[a := hput ''rawMsgData'' v (h' ! a)] else h'))
              else Some h)
           else None)
      | _ \<Rightarrow> Some h)"

text \<open>
  \<^verbatim>\<open>sendCmd\<close> (lines 160 to 180): an absent payload is a new empty object; the frame
  is a new object. \<open>Inl\<close> is the error the promise of \<^verbatim>\<open>sendCmd\<close> is rejected with at
  once.
\<close>

definition sendCmd ::
  "builtins \<Rightarrow> string \<Rightarrow> hval \<Rightarrow> string \<Rightarrow> int \<Rightarrow> client \<Rightarrow> failure + (nat \<times> client)" where
  "sendCmd env cmd data0 uuid now st =
     (let (data, h0) = (if data0 = HUndefined
                        then (let (a, h) = alloc [] (heap st) in (HRef a, h))
                        else (data0, heap st))
      in case cleanRaw env data h0 of
           None \<Rightarrow> Inl TypeError
         | Some h1 \<Rightarrow>
             (let (f, h2) = alloc [(''type'', HStr ''user''), (''cmd'', HStr cmd), (''data'', data)] h1
              in case asyncSend env (HRef f) None uuid now (st\<lparr>heap := h2\<rparr>) of
                   Inl e \<Rightarrow> Inl e
                 | Inr (r, st') \<Rightarrow> Inr (r, st'\<lparr>origin := (origin st')(r \<mapsto> cmd)\<rparr>)))"

text \<open>\<^verbatim>\<open>getMsgImage\<close> (lines 594 to 598): the payload is a new object \<^verbatim>\<open>{rawMsgData}\<close>.\<close>

definition getMsgImage ::
  "builtins \<Rightarrow> hval \<Rightarrow> string \<Rightarrow> int \<Rightarrow> client \<Rightarrow> failure + (nat \<times> client)" where
  "getMsgImage env rawMsgData uuid now st =
     (let (p, h) = alloc [(''rawMsgData'', rawMsgData)] (heap st)
      in sendCmd env ''getMsgImage'' (HRef p) uuid now (st\<lparr>heap := h\<rparr>))"

text \<open>\<^verbatim>\<open>getMyInfo\<close> (lines 364 to 366)\<close>

definition getMyInfo :: "builtins \<Rightarrow> string \<Rightarrow> int \<Rightarrow> client \<Rightarrow> failure + (nat \<times> client)" where
  "getMyInfo env uuid now st = sendCmd env ''getMyInfo'' HUndefined uuid now st"

section \<open>Connecting\<close>

text \<open>
  \<^verbatim>\<open>start\<close> (lines 71 to 95), with the two values \<^verbatim>\<open>Date.now()\<close> returns. \<open>Inl\<close> is the
  error thrown at line 74; nothing has been done then.
\<close>

definition start :: "int \<Rightarrow> int \<Rightarrow> client \<Rightarrow> failure + client" where
  "start now now' st =
     (if now - lastStartTime st < 200 then Inl RateLimited
      else (let st1 = st\<lparr>lastStartTime := now'\<rparr>;
                st2 = (case ws st1 of
                         Some s \<Rightarrow>
                           (if readyState st1 s = OPEN
                            then st1\<lparr>readyState := (readyState st1)(s := CLOSING),
                                     trace := trace st1 @ [Terminate s]\<rparr>
                            else st1)
                       | None \<Rightarrow> st1);
                n = nsock st2
            in Inr (st2\<lparr>ws := Some n, nsock := Suc n,
                        readyState := (readyState st2)(n := CONNECTING),
                        trace := trace st2 @ [NewSocket n]\<rparr>)))"

text \<open>The handlers of the socket's \<^verbatim>\<open>open\<close> and \<^verbatim>\<open>close\<close> events (lines 84 to 91).\<close>

definition onOpen :: "nat \<Rightarrow> client \<Rightarrow> client" where
  "onOpen s st = emit ''open'' [] (st\<lparr>connected := True, readyState := (readyState st)(s := OPEN)\<rparr>)"

definition onClose :: "nat \<Rightarrow> client \<Rightarrow> client" where
  "onClose s st = emit ''close'' [] (st\<lparr>connected := False, readyState := (readyState st)(s := CLOSED)\<rparr>)"

text \<open>The fields as the constructor sets them (lines 54 to 62), before it calls \<^verbatim>\<open>start\<close>.\<close>

definition newClient :: "heap \<Rightarrow> client" where
  "newClient h =
     \<lparr>connected = False, lastStartTime = 0, ws = None, readyState = (\<lambda>s. CLOSED), nsock = 0,
      listeners = (\<lambda>name. []), timers = (\<lambda>r. None), origin = (\<lambda>r. None), nreq = 0,
      heap = h, trace = [], onError = False\<rparr>"

section \<open>Definitions used to state the properties\<close>

text \<open>
  A call of \<^verbatim>\<open>start\<close> as its caller sees it: the error, if there is one, and the
  client after the call.
\<close>

definition callStart :: "int \<Rightarrow> int \<Rightarrow> client \<Rightarrow> failure option \<times> client" where
  "callStart now now' st =
     (case start now now' st of Inl e \<Rightarrow> (Some e, st) | Inr st' \<Rightarrow> (None, st'))"

text \<open>The client with an older history in front of its own.\<close>

definition before :: "action list \<Rightarrow> client \<Rightarrow> client" where
  "before t st = st\<lparr>trace := t @ trace st\<rparr>"

text \<open>
  Modelled from the spec: \<^verbatim>\<open>Helper.toCamelCase\<close> of \<^verbatim>\<open>./helper\<close>, which is not among the
  sources. The spec (4.3) says: every mapping key is rewritten from snake_case to
  camelCase, sequence contents and nested mappings are processed recursively,
  scalars pass through unchanged. An underscore before a lower-case letter goes and
  the letter becomes upper-case.
\<close>

definition lowers :: string where
  "lowers = ''abcdefghijklmnopqrstuvwxyz''"

definition uppers :: string where
  "uppers = ''ABCDEFGHIJKLMNOPQRSTUVWXYZ''"

fun camel :: "string \<Rightarrow> string" where
  "camel (c # d # cs) =
     (if c = CHR ''_'' \<and> d \<in> set lowers
      then (case map_of (zip lowers uppers) d of Some u \<Rightarrow> u | None \<Rightarrow> d) # camel cs
      else c # camel (d # cs))"
| "camel cs = cs"

fun camelCase :: "jsval \<Rightarrow> jsval" where
  "camelCase (JArr xs) = JArr (map camelCase xs)"
| "camelCase (JObj fs) = JObj (fold (\<lambda>p acc. put (camel (fst p)) (camelCase (snd p)) acc) fs [])"
| "camelCase v = v"

text \<open>
  Builtins to run examples with: \<^verbatim>\<open>JSON.parse\<close> knows the texts of a table and throws
  on anything else, \<^verbatim>\<open>toCamelCase\<close> is the function above, \<^verbatim>\<open>toUnderLine\<close> returns a
  new object with the properties of the old one.
\<close>

definition copyObject :: "heap \<Rightarrow> hval \<Rightarrow> heap \<times> hval" where
  "copyObject h v =
     (case v of
        HRef b \<Rightarrow> (if b < length h then (h @ [h ! b], HRef (length h)) else (h, v))
      | _ \<Rightarrow> (h, v))"

definition exampleBuiltins :: "(string \<times> jsval) list \<Rightarrow> builtins" where
  "exampleBuiltins tbl =
     \<lparr>JSON_parse = (\<lambda>v. case v of JStr s \<Rightarrow> map_of tbl s | _ \<Rightarrow> None),
      toString = (\<lambda>v. []),
      toCamelCase = camelCase,
      toStringH = (\<lambda>h v. []),
      JSON_stringify = (\<lambda>h v. Some []),
      toUnderLine = copyObject\<rparr>"

text \<open>
  A push item survives when its primary type is present and is neither 2048 nor
  32768; its effective type is its sub-type when the primary type is 5 and its
  primary type otherwise.
\<close>

definition surviving :: "jsval \<Rightarrow> bool" where
  "surviving x =
     (case getProp x ''msgType'' of
        Some t \<Rightarrow> t \<noteq> JUndefined \<and> t \<noteq> JNum 2048 \<and> t \<noteq> JNum 32768
      | None \<Rightarrow> False)"

definition effectiveType :: "jsval \<Rightarrow> jsval option" where
  "effectiveType x =
     (case getProp x ''msgType'' of
        Some t \<Rightarrow> (if t = JNum 5 then getProp x ''subType'' else Some t)
      | None \<Rightarrow> None)"

text \<open>The item as lines 2515 to 2523 hand it to the subscribers.\<close>

definition pushed :: "builtins \<Rightarrow> jsval \<Rightarrow> jsval" where
  "pushed env x =
     (case x of JObj fs \<Rightarrow> JObj (memberOf env (put ''mType'' (mTypeOf fs) fs)) | _ \<Rightarrow> x)"

text \<open>The values the promise of \<^verbatim>\<open>asyncSend\<close> for request \<open>r\<close> was resolved with.\<close>

fun asyncResults :: "nat \<Rightarrow> action list \<Rightarrow> jsval list" where
  "asyncResults r [] = []"
| "asyncResults r (AsyncRes r' v # as) = (if r' = r then v # asyncResults r as else asyncResults r as)"
| "asyncResults r (a # as) = asyncResults r as"

text \<open>
  Scenario C of the spec as the gateway sends it, and the result of \<^verbatim>\<open>JSON.parse\<close>
  on it.
\<close>

definition pushText :: string where
  \<open>pushText = ''{"type":"userEvent","event":"push","data":{"list":[{"msg_type":2048},{"msg_type":5,"sub_type":1,"content":"hi"}]}}''\<close>

definition pushFrame :: jsval where
  "pushFrame =
     JObj [(''type'', JStr ''userEvent''), (''event'', JStr ''push''),
           (''data'', JObj [(''list'', JArr [JObj [(''msg_type'', JNum 2048)],
              JObj [(''msg_type'', JNum 5), (''sub_type'', JNum 1), (''content'', JStr ''hi'')]])])]"

text \<open>
  Scenario A of the spec: the reply of the gateway to the request with
  \<^verbatim>\<open>cmdId\<close> \<open>x\<close>, as text and parsed, and the run of the scenario: a new client
  connects, its socket opens, \<^verbatim>\<open>getMyInfo\<close> is called (\<^verbatim>\<open>UUID.v1()\<close> returns \<open>x\<close>), the
  reply arrives.
\<close>

definition replyText :: "string \<Rightarrow> string" where
  \<open>replyText x = ''{"type":"cmdRet","cmdId":"'' @ x @ ''","data":{"success":true,"data":{"user_name":"wxid_1"}}}''\<close>

definition replyFrame :: "string \<Rightarrow> jsval" where
  "replyFrame x =
     JObj [(''type'', JStr ''cmdRet''), (''cmdId'', JStr x),
           (''data'', JObj [(''success'', JBool True),
                            (''data'', JObj [(''user_name'', JStr ''wxid_1'')])])]"

definition sentA :: "string \<Rightarrow> client" where
  "sentA x =
     (let env = exampleBuiltins [(replyText x, replyFrame x)];
          st1 = onOpen 0 (snd (callStart 1000 1000 (newClient [])))
      in case getMyInfo env x 2000 st1 of
           Inl e \<Rightarrow> st1
         | Inr (r, st2) \<Rightarrow> st2)"

definition scenarioA :: "string \<Rightarrow> client" where
  "scenarioA x =
     snd (onWsMsg (exampleBuiltins [(replyText x, replyFrame x)]) (Text (replyText x)) (sentA x))"

text \<open>
  The payload \<^verbatim>\<open>sendCmd\<close> works on and the store it is in: the argument, or a new
  empty object when there is none (line 160).
\<close>

definition payloadOf :: "hval \<Rightarrow> heap \<Rightarrow> hval \<times> heap" where
  "payloadOf data h = (if data = HUndefined then (HRef (length h), h @ [[]]) else (data, h))"

text \<open>
  The property \<open>k\<close> of the object at address \<open>a\<close> after a call of \<^verbatim>\<open>sendCmd\<close> or
  \<^verbatim>\<open>asyncSend\<close> that returned a promise.
\<close>

definition fieldAfter :: "nat \<Rightarrow> string \<Rightarrow> failure + nat \<times> client \<Rightarrow> hval option" where
  "fieldAfter a k res =
     (case res of Inl e \<Rightarrow> None | Inr (r, st') \<Rightarrow> Some (hfield (heap st' ! a) k))"

text \<open>
  The client after a call of \<^verbatim>\<open>asyncSend\<close> or \<^verbatim>\<open>sendCmd\<close>: as it was when the call
  threw before doing anything.
\<close>

definition afterCall :: "client \<Rightarrow> failure + nat \<times> client \<Rightarrow> client" where
  "afterCall st res = (case res of Inl e \<Rightarrow> st | Inr (r, st') \<Rightarrow> st')"

text \<open>
  What can happen to a client, one thing at a time (JavaScript runs each to its
  end before the next): a call of \<^verbatim>\<open>asyncSend\<close>, \<^verbatim>\<open>sendCmd\<close> or \<^verbatim>\<open>start\<close>, a frame from
  the socket, a timer of the runtime, the callback of \<^verbatim>\<open>ws.send\<close>, the socket opening
  or closing, the caller registering a listener for \<^verbatim>\<open>error\<close>. A run is a list of them, from the oldest.
\<close>

datatype input =
    CallAsyncSend hval "int option" string int
  | CallSendCmd string hval string int
  | CallStart int int
  | Frame wsdata
  | TimerFires nat int
  | SendCallback nat "string option"
  | SocketOpen nat
  | SocketClose nat
  | SubscribeError

fun step :: "builtins \<Rightarrow> input \<Rightarrow> client \<Rightarrow> client" where
  "step env (CallAsyncSend data timeout uuid now) st = afterCall st (asyncSend env data timeout uuid now st)"
| "step env (CallSendCmd cmd data uuid now) st = afterCall st (sendCmd env cmd data uuid now st)"
| "step env (CallStart now now') st = snd (callStart now now' st)"
| "step env (Frame msg) st = snd (onWsMsg env msg st)"
| "step env (TimerFires r now) st = timeoutFired r now st"
| "step env (SendCallback r e) st = sendCallback r e st"
| "step env (SocketOpen s) st = onOpen s st"
| "step env (SocketClose s) st = onClose s st"
| "step env SubscribeError st = subscribeError st"

definition run :: "builtins \<Rightarrow> input list \<Rightarrow> client \<Rightarrow> client" where
  "run env ins st = fold (step env) ins st"

text \<open>
  The calls that complete the promise \<^verbatim>\<open>getCmdRecv\<close> made for request \<open>r\<close>: \<^verbatim>\<open>res\<close> in the
  listener, \<^verbatim>\<open>rej\<close> in the timer.
\<close>

fun settles :: "nat \<Rightarrow> action \<Rightarrow> bool" where
  "settles r (RecvRes r' d) = (r' = r)"
| "settles r (RecvRej r' e) = (r' = r)"
| "settles r a = False"

definition settlements :: "nat \<Rightarrow> action list \<Rightarrow> nat" where
  "settlements r tr = length (filter (settles r) tr)"

text \<open>
  Every \<^verbatim>\<open>res\<close> of \<^verbatim>\<open>getCmdRecv\<close> comes right after the \<^verbatim>\<open>clearTimeout\<close> of its request,
  every \<^verbatim>\<open>rej\<close> right after a \<^verbatim>\<open>removeAllListeners\<close>; \<open>p\<close> is what was done last.
\<close>

fun isRemove :: "action option \<Rightarrow> bool" where
  "isRemove (Some (RemoveAllListeners n)) = True"
| "isRemove p = False"

fun guarded :: "action option \<Rightarrow> action list \<Rightarrow> bool" where
  "guarded p [] = True"
| "guarded p (RecvRes r d # as) = (p = Some (ClearTimeout r) \<and> guarded (Some (RecvRes r d)) as)"
| "guarded p (RecvRej r e # as) = (isRemove p \<and> guarded (Some (RecvRej r e)) as)"
| "guarded p (a # as) = guarded (Some a) as"

text \<open>What holds of the listeners, the timers, the number of requests and the history.\<close>

definition consistent ::
  "(string \<Rightarrow> nat list) \<Rightarrow> (nat \<Rightarrow> (int \<times> string \<times> int) option) \<Rightarrow> nat \<Rightarrow> action list \<Rightarrow> bool" where
  "consistent ls tm n tr \<longleftrightarrow>
     (\<forall>name r. r \<in> set (ls name) \<longrightarrow> (\<exists>due t. tm r = Some (due, name, t))) \<and>
     (\<forall>r. tm r \<noteq> None \<longrightarrow> r < n \<and> settlements r tr = 0 \<and> asyncResults r tr = []) \<and>
     (\<forall>name. distinct (ls name)) \<and>
     (\<forall>r. settlements r tr \<le> 1 \<and> length (asyncResults r tr) \<le> 1) \<and>
     (\<forall>r. n \<le> r \<longrightarrow> settlements r tr = 0 \<and> asyncResults r tr = []) \<and>
     guarded None tr"

definition Inv :: "client \<Rightarrow> bool" where
  "Inv st = consistent (listeners st) (timers st) (nreq st) (trace st)"

text \<open>Actions that complete no promise a caller waits for.\<close>

fun neutral :: "action \<Rightarrow> bool" where
  "neutral (RecvRes r d) = False"
| "neutral (RecvRej r e) = False"
| "neutral (AsyncRes r v) = False"
| "neutral a = True"

text \<open>A step that leaves listeners, timers and requests alone and adds only such actions.\<close>

definition quiet :: "client \<Rightarrow> client \<Rightarrow> bool" where
  "quiet st st' \<longleftrightarrow>
     listeners st' = listeners st \<and> timers st' = timers st \<and> nreq st' = nreq st \<and>
     (\<exists>as. trace st' = trace st @ as \<and> list_all neutral as)"

text \<open>What was done last, after more has been done.\<close>

definition lastOf :: "action option \<Rightarrow> action list \<Rightarrow> action option" where
  "lastOf p xs = (if xs = [] then p else Some (last xs))"

text \<open>
  A run to try the properties on: the client connects, sends \<^verbatim>\<open>getMyInfo\<close> and gets the
  reply of scenario A, the timer of the request comes too late; a second
  \<^verbatim>\<open>getMyInfo\<close> gets no reply and its timer fires.
\<close>

definition exampleInputs :: "input list" where
  "exampleInputs =
     [CallStart 1000 1000, SocketOpen 0,
      CallSendCmd ''getMyInfo'' HUndefined ''X'' 2000, Frame (Text (replyText ''X'')),
      TimerFires 0 40000000,
      CallSendCmd ''getMyInfo'' HUndefined ''Y'' 3000, TimerFires 1 40000000]"

definition exampleRun :: client where
  "exampleRun = run (exampleBuiltins [(replyText ''X'', replyFrame ''X'')]) exampleInputs (newClient [])"

text \<open>
  Two more runs: a command sent while the socket is still connecting, whose
  \<^verbatim>\<open>ws.send\<close> then fails; and \<^verbatim>\<open>asyncSend\<close> of a frame at time 2000 with a timeout of
  30000 on a connected client.
\<close>

definition notConnectedRun :: client where
  "notConnectedRun =
     run (exampleBuiltins [])
       [CallStart 1000 1000, CallSendCmd ''getMyInfo'' HUndefined ''X'' 2000,
        SendCallback 0 (Some ''boom'')]
       (newClient [])"

definition timeoutRun :: client where
  "timeoutRun =
     run (exampleBuiltins [])
       [CallStart 1000 1000, SocketOpen 0, CallAsyncSend (HRef 0) (Some 30000) ''X'' 2000]
       (newClient [[(''type'', HStr ''user''), (''cmd'', HStr ''getMyInfo'')]])"

text \<open>A push frame with a \<^verbatim>\<open>null\<close> between two items, as text and parsed.\<close>

definition pushNullText :: string where
  \<open>pushNullText = ''{"type":"userEvent","event":"push","data":{"list":[{"msgType":1},null,{"msgType":2}]}}''\<close>

definition pushNullFrame :: jsval where
  "pushNullFrame =
     JObj [(''type'', JStr ''userEvent''), (''event'', JStr ''push''),
           (''data'', JObj [(''list'', JArr [JObj [(''msgType'', JNum 1)], JNull,
                                             JObj [(''msgType'', JNum 2)]])])]"

section \<open>The history is only written\<close>

lemma emit_before: "emit n a (before t st) = before t (emit n a st)"
  by (simp add: emit_def before_def)

lemma emitError_before: "emitError e (before t st) = apsnd (before t) (emitError e st)"
  by (simp add: emitError_def emit_before) (simp add: before_def)

lemma listener_before: "listener d r (before t st) = before t (listener d r st)"
  by (simp add: listener_def before_def)

lemma asyncThen_before: "asyncThen d r (before t st) = before t (asyncThen d r st)"
  by (simp add: asyncThen_def before_def split: option.splits)

lemma cmdThen_before: "cmdThen d r (before t st) = before t (cmdThen d r st)"
  by (simp add: cmdThen_def emit_before split: option.splits) (simp add: before_def)

lemma fold_before:
  assumes "\<And>r s. f r (before t s) = before t (f r s)"
  shows "fold f rs (before t st) = before t (fold f rs st)"
  using assms by (induction rs arbitrary: st) simp_all

lemma emitRet_before: "emitRet n d (before t st) = apsnd (before t) (emitRet n d st)"
proof -
  have l: "listeners (before t st) = listeners st" by (simp add: before_def)
  have u: "(before t st)\<lparr>listeners := x\<rparr> = before t (st\<lparr>listeners := x\<rparr>)" for x
    by (simp add: before_def)
  show ?thesis
    by (simp add: emitRet_def Let_def l u fold_before listener_before asyncThen_before cmdThen_before)
qed

lemma pushItem_before: "pushItem env x (before t st) = map_option (before t) (pushItem env x st)"
  by (cases x) (simp_all add: Let_def emit_before)

lemma pushAll_before: "pushAll env xs (before t st) = apsnd (before t) (pushAll env xs st)"
  by (induction xs arbitrary: st) (simp_all add: pushItem_before split: option.splits)

lemma userEvent_before: "userEvent env fs (before t st) = apsnd (before t) (userEvent env fs st)"
  by (simp add: userEvent_def Let_def emit_before emitError_before pushAll_before
      split: option.splits jsval.splits list.splits)

lemma dispatch_before: "dispatch env d (before t st) = apsnd (before t) (dispatch env d st)"
  by (simp add: dispatch_def Let_def emit_before emitRet_before userEvent_before
      split: jsval.splits prod.splits)

lemma onWsMsg_before: "onWsMsg env m (before t st) = apsnd (before t) (onWsMsg env m st)"
  by (simp add: onWsMsg_def emitError_before dispatch_before split: wsdata.splits option.splits)

section \<open>Connecting\<close>

text \<open>
  C8. A call of \<^verbatim>\<open>start\<close> less than 200 ms after the time recorded for the previous
  attempt (the last one that was not refused) fails with the rate-limit error and
  leaves the client as it was; a call at 200 ms or more does not fail. In
  particular, after an attempt that created a socket, a second call within 200 ms
  fails and the socket of the first attempt is still the client's socket, still
  connecting, with nothing added to the history (no \<^verbatim>\<open>terminate\<close>).
\<close>

theorem start_rate_limit:
  "(now - lastStartTime st < 200 \<longrightarrow> callStart now now' st = (Some RateLimited, st)) \<and>
   (\<not> now - lastStartTime st < 200 \<longrightarrow> fst (callStart now now' st) = None) \<and>
   (start t1 t1' st = Inr st1 \<and> t2 - t1' < 200 \<longrightarrow>
      callStart t2 t2' st1 = (Some RateLimited, st1) \<and>
      ws st1 = Some (nsock st) \<and> readyState st1 (nsock st) = CONNECTING)"
  by (auto simp: callStart_def start_def Let_def split: option.splits if_splits)

theorem start_rate_limit_witness:
  "start 1000 1000 (newClient []) = Inr (snd (callStart 1000 1000 (newClient []))) \<and>
   callStart 1100 1100 (snd (callStart 1000 1000 (newClient []))) =
     (Some RateLimited, snd (callStart 1000 1000 (newClient []))) \<and>
   ws (snd (callStart 1000 1000 (newClient []))) = Some 0 \<and>
   readyState (snd (callStart 1000 1000 (newClient []))) 0 = CONNECTING \<and>
   fst (callStart 1200 1200 (snd (callStart 1000 1000 (newClient [])))) = None"
  using start_rate_limit [where now = 1200 and now' = 1200
      and st = "snd (callStart 1000 1000 (newClient []))"
      and ?t1.0 = 1000 and t1' = 1000
      and ?st1.0 = "snd (callStart 1000 1000 (newClient []))"
      and ?t2.0 = 1100 and t2' = 1100]
  by (simp add: callStart_def start_def newClient_def Let_def)

section \<open>Push batches\<close>

lemma map_of_put: "map_of (put k v fs) = (map_of fs)(k \<mapsto> v)"
  by (induction fs) (auto simp: fun_eq_iff)

lemma pushItem_surviving:
  "x \<noteq> JNull \<Longrightarrow> x \<noteq> JUndefined \<Longrightarrow>
   pushItem env x st =
     Some (if surviving x then emit ''push'' [AVal (pushed env x)] st else st)"
  by (cases x) (auto simp: surviving_def pushed_def Let_def)

lemma pushAll_surviving:
  "JNull \<notin> set items \<Longrightarrow> JUndefined \<notin> set items \<Longrightarrow>
   pushAll env items st =
     (None, st\<lparr>trace := trace st @ map (\<lambda>x. Emit ''push'' [AVal (pushed env x)]) (filter surviving items)\<rparr>)"
proof (induction items arbitrary: st)
  case Nil
  then show ?case by simp
next
  case (Cons x xs)
  from Cons.prems have x: "x \<noteq> JNull" "x \<noteq> JUndefined"
    and xs: "JNull \<notin> set xs" "JUndefined \<notin> set xs" by auto
  show ?case
    by (simp add: pushItem_surviving [OF x] Cons.IH [OF xs] emit_def)
qed

lemma pushed_mType: "surviving x \<Longrightarrow> getProp (pushed env x) ''mType'' = effectiveType x"
  by (cases x) (auto simp: surviving_def pushed_def effectiveType_def memberOf_def mTypeOf_def
      map_of_put split: option.splits)

lemma pushed_others:
  "surviving x \<Longrightarrow> k \<noteq> ''mType'' \<Longrightarrow> k \<noteq> ''member'' \<Longrightarrow> getProp (pushed env x) k = getProp x k"
  by (cases x) (auto simp: surviving_def pushed_def memberOf_def map_of_put split: option.splits)

text \<open>
  C5 as amended. A push frame whose list is not empty and holds no \<^verbatim>\<open>null\<close> makes \<^verbatim>\<open>onWsMsg\<close> emit,
  after the \<^verbatim>\<open>msg\<close> event, exactly one \<^verbatim>\<open>push\<close> event for each surviving item of the
  list and nothing else, in the order of the list, and without throwing. Each
  emitted item has an \<^verbatim>\<open>mType\<close> equal to the effective type of the item it comes from,
  and agrees with it on every property other than \<^verbatim>\<open>mType\<close> and \<^verbatim>\<open>member\<close>.
\<close>

theorem push_batch:
  assumes "JSON_parse env (JStr s) = Some raw"
    and "normalizeFrame env raw = Some (JObj fs)"
    and "getField fs ''type'' = JStr ''userEvent''"
    and "getField fs ''event'' = JStr ''push''"
    and "getProp (getField fs ''data'') ''list'' = Some (JArr items)"
    and "items \<noteq> []"
    and "JNull \<notin> set items" and "JUndefined \<notin> set items"
  shows "onWsMsg env (Text s) st =
           (None, st\<lparr>trace := trace st @ Emit ''msg'' [AVal (JObj fs)] #
                      map (\<lambda>x. Emit ''push'' [AVal (pushed env x)]) (filter surviving items)\<rparr>) \<and>
         (\<forall>x \<in> set (filter surviving items).
            getProp (pushed env x) ''mType'' = effectiveType x \<and>
            (\<forall>k. k \<noteq> ''mType'' \<and> k \<noteq> ''member'' \<longrightarrow> getProp (pushed env x) k = getProp x k))"
proof -
  obtain item rest where items: "items = item # rest"
    using assms(6) by (cases items) auto
  have t: "truthy (getField fs ''data'')"
    using assms(5) by (cases "getField fs ''data''") simp_all
  have "userEvent env fs (emit ''msg'' [AVal (JObj fs)] st) =
          pushAll env items (emit ''msg'' [AVal (JObj fs)] st)"
    using assms(4,5) t by (simp add: userEvent_def Let_def items plainEvents_def)
  then have "onWsMsg env (Text s) st = pushAll env items (emit ''msg'' [AVal (JObj fs)] st)"
    using assms(1,2,3) by (simp add: onWsMsg_def dispatch_def Let_def)
  then show ?thesis
    using assms(7,8) by (simp add: pushAll_surviving emit_def pushed_mType pushed_others)
qed

lemma camel_msg_type: "camel ''msg_type'' = ''msgType''" "camel ''sub_type'' = ''subType''"
  "camel ''content'' = ''content''" "camel ''list'' = ''list''"
  by (simp_all add: lowers_def uppers_def)

theorem push_batch_witness:
  "onWsMsg (exampleBuiltins [(pushText, pushFrame)]) (Text pushText) (newClient []) =
     (None, (newClient [])\<lparr>trace :=
        [Emit ''msg'' [AVal (JObj [(''type'', JStr ''userEvent''), (''event'', JStr ''push''),
           (''data'', JObj [(''list'', JArr [JObj [(''msgType'', JNum 2048)],
              JObj [(''msgType'', JNum 5), (''subType'', JNum 1), (''content'', JStr ''hi'')]])])])],
         Emit ''push'' [AVal (JObj [(''msgType'', JNum 5), (''subType'', JNum 1),
              (''content'', JStr ''hi''), (''mType'', JNum 1)])]]\<rparr>)"
proof -
  let ?env = "exampleBuiltins [(pushText, pushFrame)]"
  let ?items = "[JObj [(''msgType'', JNum 2048)],
       JObj [(''msgType'', JNum 5), (''subType'', JNum 1), (''content'', JStr ''hi'')]]"
  let ?fs = "[(''type'', JStr ''userEvent''), (''event'', JStr ''push''),
       (''data'', JObj [(''list'', JArr ?items)])]"
  have 1: "JSON_parse ?env (JStr pushText) = Some pushFrame"
    by (simp add: exampleBuiltins_def)
  have 2: "normalizeFrame ?env pushFrame = Some (JObj ?fs)"
    by (simp add: exampleBuiltins_def pushFrame_def normalizeFrame_def parseInner_def camel_msg_type
        del: camel.simps)
  have 3: "getField ?fs ''type'' = JStr ''userEvent''" by simp
  have 4: "getField ?fs ''event'' = JStr ''push''" by simp
  have 5: "getProp (getField ?fs ''data'') ''list'' = Some (JArr ?items)" by simp
  have 6: "?items \<noteq> []" by simp
  have 7: "JNull \<notin> set ?items" by simp
  have 8: "JUndefined \<notin> set ?items" by simp
  show ?thesis
    using push_batch [OF 1 2 3 4 5 6 7 8, of "newClient []"]
    by (simp add: surviving_def pushed_def memberOf_def mTypeOf_def newClient_def)
qed

text \<open>
  C5 as stated fails: of the list \<^verbatim>\<open>[{msgType: 1}, null, {msgType: 2}]\<close> two items
  survive, but \<^verbatim>\<open>item.msgType\<close> throws on the \<^verbatim>\<open>null\<close> (line 2508): \<^verbatim>\<open>onWsMsg\<close> throws
  a TypeError after one \<^verbatim>\<open>push\<close> event.
\<close>

theorem push_batch_counterexample:
  "filter surviving [JObj [(''msgType'', JNum 1)], JNull, JObj [(''msgType'', JNum 2)]] =
     [JObj [(''msgType'', JNum 1)], JObj [(''msgType'', JNum 2)]] \<and>
   onWsMsg (exampleBuiltins [(pushNullText, pushNullFrame)]) (Text pushNullText) (newClient []) =
     (Some TypeError, (newClient [])\<lparr>trace :=
        [Emit ''msg'' [AVal pushNullFrame],
         Emit ''push'' [AVal (JObj [(''msgType'', JNum 1), (''mType'', JNum 1)])]]\<rparr>)"
  by (simp add: surviving_def exampleBuiltins_def pushNullFrame_def onWsMsg_def normalizeFrame_def
      parseInner_def lowers_def uppers_def dispatch_def userEvent_def plainEvents_def emit_def
      memberOf_def mTypeOf_def newClient_def Let_def)

section \<open>Frames that cannot be read\<close>

text \<open>
  C7 as amended. On a client with a listener for \<^verbatim>\<open>error\<close>, a frame that is not a
  string, or whose text \<^verbatim>\<open>JSON.parse\<close> rejects, makes \<^verbatim>\<open>onWsMsg\<close> emit one \<^verbatim>\<open>error\<close>
  event and nothing else, without throwing, and changes nothing else in the client:
  whatever frame comes next is handled as it would have been without the bad frame,
  its effects following the \<^verbatim>\<open>error\<close> event in the history.
\<close>

theorem bad_frame:
  assumes "msg = Binary bs \<or> (msg = Text s \<and> JSON_parse env (JStr s) = None)"
    and "onError st"
  shows "\<exists>e. onWsMsg env msg st = (None, st\<lparr>trace := trace st @ [Emit ''error'' [AErr e]]\<rparr>) \<and>
           (\<forall>m. onWsMsg env m (st\<lparr>trace := trace st @ [Emit ''error'' [AErr e]]\<rparr>) =
                 apsnd (\<lambda>s'. s'\<lparr>trace := trace st @ Emit ''error'' [AErr e] #
                                          drop (length (trace st)) (trace s')\<rparr>)
                   (onWsMsg env m st))"
proof -
  obtain e where e: "onWsMsg env msg st = (None, st\<lparr>trace := trace st @ [Emit ''error'' [AErr e]]\<rparr>)"
    using assms by (auto simp: onWsMsg_def emitError_def emit_def)
  let ?st0 = "st\<lparr>trace := []\<rparr>"
  have a: "st = before (trace st) ?st0" by (simp add: before_def)
  have b: "st\<lparr>trace := trace st @ [Emit ''error'' [AErr e]]\<rparr> =
           before (trace st @ [Emit ''error'' [AErr e]]) ?st0" by (simp add: before_def)
  have "onWsMsg env m (st\<lparr>trace := trace st @ [Emit ''error'' [AErr e]]\<rparr>) =
          apsnd (\<lambda>s'. s'\<lparr>trace := trace st @ Emit ''error'' [AErr e] #
                                   drop (length (trace st)) (trace s')\<rparr>)
            (onWsMsg env m st)" for m
  proof -
    obtain x s0 where r: "onWsMsg env m ?st0 = (x, s0)" by (cases "onWsMsg env m ?st0")
    have 1: "onWsMsg env m (st\<lparr>trace := trace st @ [Emit ''error'' [AErr e]]\<rparr>) =
               (x, before (trace st @ [Emit ''error'' [AErr e]]) s0)"
      by (subst b) (simp add: onWsMsg_before r)
    have 2: "onWsMsg env m st = (x, before (trace st) s0)"
      by (subst a) (simp add: onWsMsg_before r)
    show ?thesis unfolding 1 2 by (simp add: before_def)
  qed
  with e show ?thesis by blast
qed

theorem bad_frame_witness:
  "(Text ''{oops'' = Binary [] \<or>
      (Text ''{oops'' = Text ''{oops'' \<and> JSON_parse (exampleBuiltins []) (JStr ''{oops'') = None)) \<and>
   onError (subscribeError (newClient [])) \<and>
   (\<exists>e. onWsMsg (exampleBuiltins []) (Text ''{oops'') (subscribeError (newClient [])) =
           (None, (subscribeError (newClient []))\<lparr>trace :=
              trace (subscribeError (newClient [])) @ [Emit ''error'' [AErr e]]\<rparr>))"
proof -
  have h: "Text ''{oops'' = Binary [] \<or>
      (Text ''{oops'' = Text ''{oops'' \<and> JSON_parse (exampleBuiltins []) (JStr ''{oops'') = None)"
    by (simp add: exampleBuiltins_def)
  have l: "onError (subscribeError (newClient []))"
    by (simp add: subscribeError_def)
  from bad_frame [OF h l] h l show ?thesis by blast
qed

text \<open>
  C7 as stated fails: on a new client, which has no listener for \<^verbatim>\<open>error\<close>, a text
  that is not JSON makes \<^verbatim>\<open>onWsMsg\<close> throw the error; no event is recorded.
\<close>

theorem bad_frame_counterexample:
  "JSON_parse (exampleBuiltins []) (JStr ''{oops'') = None \<and>
   onWsMsg (exampleBuiltins []) (Text ''{oops'') (newClient []) = (Some ParseFailed, newClient [])"
  by (simp add: exampleBuiltins_def onWsMsg_def emitError_def newClient_def)

section \<open>The member list of a push item\<close>

text \<open>
  C9 as amended. For a surviving push item with a truthy \<^verbatim>\<open>member\<close>, the callback does
  not throw and emits the item with \<^verbatim>\<open>member\<close> replaced by what \<^verbatim>\<open>JSON.parse\<close> returns
  for it (by an empty array when that is falsy); when \<^verbatim>\<open>JSON.parse\<close> throws, the
  emitted item keeps the \<^verbatim>\<open>member\<close> it had.
\<close>

theorem push_member:
  assumes "surviving (JObj fs)" and "truthy (getField fs ''member'')"
  shows "pushItem env (JObj fs) st = Some (emit ''push'' [AVal (pushed env (JObj fs))] st) \<and>
         getProp (pushed env (JObj fs)) ''member'' =
           Some (case JSON_parse env (getField fs ''member'') of
                   Some p \<Rightarrow> (if truthy p then p else JArr [])
                 | None \<Rightarrow> getField fs ''member'')"
  using assms
  by (auto simp: surviving_def pushed_def Let_def memberOf_def map_of_put split: option.splits)

theorem push_member_witness:
  "surviving (JObj [(''msgType'', JNum 1), (''member'', JStr ''[]'')]) \<and>
   truthy (getField [(''msgType'', JNum 1), (''member'', JStr ''[]'')] ''member'') \<and>
   getProp (pushed (exampleBuiltins [(''[]'', JArr [])])
              (JObj [(''msgType'', JNum 1), (''member'', JStr ''[]'')])) ''member'' = Some (JArr [])"
proof -
  have 1: "surviving (JObj [(''msgType'', JNum 1), (''member'', JStr ''[]'')])"
    by (simp add: surviving_def)
  have 2: "truthy (getField [(''msgType'', JNum 1), (''member'', JStr ''[]'')] ''member'')"
    by simp
  show ?thesis
    using push_member [OF 1 2, of "exampleBuiltins [(''[]'', JArr [])]" "newClient []"] 1 2
    by (simp add: exampleBuiltins_def)
qed

text \<open>
  C9 as stated fails: a \<^verbatim>\<open>member\<close> that does not parse is still set, to the text it
  held, on the emitted item.
\<close>

theorem push_member_counterexample:
  "JSON_parse (exampleBuiltins []) (JStr ''oops'') = None \<and>
   pushItem (exampleBuiltins []) (JObj [(''msgType'', JNum 1), (''member'', JStr ''oops'')]) (newClient []) =
     Some (emit ''push'' [AVal (JObj [(''msgType'', JNum 1), (''member'', JStr ''oops''),
                                      (''mType'', JNum 1)])] (newClient [])) \<and>
   getProp (JObj [(''msgType'', JNum 1), (''member'', JStr ''oops''), (''mType'', JNum 1)]) ''member''
     \<noteq> Some JUndefined"
  by (simp add: exampleBuiltins_def memberOf_def mTypeOf_def Let_def)

section \<open>The reply to a command\<close>

lemma camel_user_name: "camel ''user_name'' = ''userName''" "camel ''success'' = ''success''"
  "camel ''data'' = ''data''"
  by (simp_all add: lowers_def uppers_def)

lemma normalize_reply:
  assumes "toCamelCase env = camelCase"
  shows "normalizeFrame env (replyFrame x) =
     Some (JObj [(''type'', JStr ''cmdRet''), (''cmdId'', JStr x),
       (''data'', JObj [(''success'', JBool True), (''data'', JObj [(''userName'', JStr ''wxid_1'')])])])"
  using assms
  by (simp add: replyFrame_def normalizeFrame_def parseInner_def parseExtended_def camel_user_name
      del: camel.simps)

text \<open>
  C6 as amended. When the reply of scenario A arrives for the one request waiting
  for its \<^verbatim>\<open>cmdId\<close>, a request of \<^verbatim>\<open>getMyInfo\<close>, the promise of the request is resolved
  with the whole payload of the reply, \<^verbatim>\<open>{success: true, data: {userName: "wxid_1"}}\<close>,
  its keys in camelCase; the timer is cleared first and the \<^verbatim>\<open>cmdRet\<close> event follows.
\<close>

theorem reply_resolves:
  assumes "JSON_parse env (JStr s) = Some (replyFrame x)"
    and "toCamelCase env = camelCase"
    and "x \<noteq> []"
    and "listeners st (''RET#'' @ x) = [r]"
    and "origin st r = Some ''getMyInfo''"
  shows "fst (onWsMsg env (Text s) st) = None \<and>
         asyncResults r (trace (snd (onWsMsg env (Text s) st))) =
           asyncResults r (trace st) @
             [JObj [(''success'', JBool True), (''data'', JObj [(''userName'', JStr ''wxid_1'')])]] \<and>
         trace (snd (onWsMsg env (Text s) st)) = trace st @
           [Emit ''msg'' [AVal (JObj [(''type'', JStr ''cmdRet''), (''cmdId'', JStr x),
              (''data'', JObj [(''success'', JBool True), (''data'', JObj [(''userName'', JStr ''wxid_1'')])])])],
            ClearTimeout r,
            RecvRes r (JObj [(''type'', JStr ''cmdRet''), (''cmdId'', JStr x),
              (''data'', JObj [(''success'', JBool True), (''data'', JObj [(''userName'', JStr ''wxid_1'')])])]),
            AsyncRes r (JObj [(''success'', JBool True), (''data'', JObj [(''userName'', JStr ''wxid_1'')])]),
            Emit ''cmdRet'' [AVal (JStr ''getMyInfo''),
              AVal (JObj [(''success'', JBool True), (''data'', JObj [(''userName'', JStr ''wxid_1'')])])]]"
proof -
  have ar: "asyncResults r (xs @ ys) = asyncResults r xs @ asyncResults r ys" for xs ys
    by (induction r xs rule: asyncResults.induct) simp_all
  have t: "trace (snd (onWsMsg env (Text s) st)) = trace st @
           [Emit ''msg'' [AVal (JObj [(''type'', JStr ''cmdRet''), (''cmdId'', JStr x),
              (''data'', JObj [(''success'', JBool True), (''data'', JObj [(''userName'', JStr ''wxid_1'')])])])],
            ClearTimeout r,
            RecvRes r (JObj [(''type'', JStr ''cmdRet''), (''cmdId'', JStr x),
              (''data'', JObj [(''success'', JBool True), (''data'', JObj [(''userName'', JStr ''wxid_1'')])])]),
            AsyncRes r (JObj [(''success'', JBool True), (''data'', JObj [(''userName'', JStr ''wxid_1'')])]),
            Emit ''cmdRet'' [AVal (JStr ''getMyInfo''),
              AVal (JObj [(''success'', JBool True), (''data'', JObj [(''userName'', JStr ''wxid_1'')])])]]"
    using assms
    by (simp add: onWsMsg_def normalize_reply dispatch_def Let_def emitRet_def retName_def emit_def
        listener_def asyncThen_def cmdThen_def)
  have f: "fst (onWsMsg env (Text s) st) = None"
    using assms
    by (simp add: onWsMsg_def normalize_reply dispatch_def Let_def emitRet_def retName_def
        split: prod.splits)
  show ?thesis using f by (simp add: t ar)
qed

lemma sentA_X:
  "listeners (sentA ''X'') ''RET#X'' = [0]" "origin (sentA ''X'') 0 = Some ''getMyInfo''"
  "trace (sentA ''X'') = [NewSocket 0, Emit ''open'' [], WsSend 0 []]"
  by (simp_all add: sentA_def getMyInfo_def sendCmd_def alloc_def cleanRaw_def asyncSend_def
      getCmdRecv_def retNameH_def priv_send_def exampleBuiltins_def onOpen_def emit_def
      callStart_def start_def newClient_def Let_def)

theorem reply_resolves_witness:
  "JSON_parse (exampleBuiltins [(replyText ''X'', replyFrame ''X'')]) (JStr (replyText ''X'')) =
     Some (replyFrame ''X'') \<and>
   toCamelCase (exampleBuiltins [(replyText ''X'', replyFrame ''X'')]) = camelCase \<and>
   listeners (sentA ''X'') (''RET#'' @ ''X'') = [0] \<and>
   origin (sentA ''X'') 0 = Some ''getMyInfo'' \<and>
   asyncResults 0 (trace (scenarioA ''X'')) =
     [JObj [(''success'', JBool True), (''data'', JObj [(''userName'', JStr ''wxid_1'')])]]"
proof -
  let ?env = "exampleBuiltins [(replyText ''X'', replyFrame ''X'')]"
  have 1: "JSON_parse ?env (JStr (replyText ''X'')) = Some (replyFrame ''X'')"
    by (simp add: exampleBuiltins_def)
  have 2: "toCamelCase ?env = camelCase" by (simp add: exampleBuiltins_def)
  have 3: "''X'' \<noteq> []" by simp
  have 4: "listeners (sentA ''X'') (''RET#'' @ ''X'') = [0]" by (simp add: sentA_X)
  have 5: "origin (sentA ''X'') 0 = Some ''getMyInfo''" by (simp add: sentA_X)
  show ?thesis
    using reply_resolves [OF 1 2 3 4 5] 1 2 4 5
    by (simp add: scenarioA_def sentA_X)
qed

text \<open>
  C6 as stated fails: in scenario A the promise is not resolved with
  \<^verbatim>\<open>{userName: "wxid_1"}\<close>.
\<close>

theorem reply_resolves_counterexample:
  "asyncResults 0 (trace (scenarioA ''X'')) \<noteq> [JObj [(''userName'', JStr ''wxid_1'')]]"
proof -
  let ?env = "exampleBuiltins [(replyText ''X'', replyFrame ''X'')]"
  have 1: "JSON_parse ?env (JStr (replyText ''X'')) = Some (replyFrame ''X'')"
    by (simp add: exampleBuiltins_def)
  have 2: "toCamelCase ?env = camelCase" by (simp add: exampleBuiltins_def)
  have "trace (scenarioA ''X'') = [NewSocket 0, Emit ''open'' [], WsSend 0 [],
     Emit ''msg'' [AVal (JObj [(''type'', JStr ''cmdRet''), (''cmdId'', JStr ''X''),
              (''data'', JObj [(''success'', JBool True), (''data'', JObj [(''userName'', JStr ''wxid_1'')])])])],
            ClearTimeout 0,
            RecvRes 0 (JObj [(''type'', JStr ''cmdRet''), (''cmdId'', JStr ''X''),
              (''data'', JObj [(''success'', JBool True), (''data'', JObj [(''userName'', JStr ''wxid_1'')])])]),
            AsyncRes 0 (JObj [(''success'', JBool True), (''data'', JObj [(''userName'', JStr ''wxid_1'')])]),
            Emit ''cmdRet'' [AVal (JStr ''getMyInfo''),
              AVal (JObj [(''success'', JBool True), (''data'', JObj [(''userName'', JStr ''wxid_1'')])])]]"
    unfolding scenarioA_def
    by (simp add: onWsMsg_def 1 normalize_reply [OF 2] dispatch_def Let_def emitRet_def retName_def
        emit_def listener_def asyncThen_def cmdThen_def sentA_X split: prod.splits)
  then show ?thesis by simp
qed

section \<open>The frame that is sent\<close>

lemma priv_send_fields:
  "heap (priv_send env d r st) = heap st"
  "timers (priv_send env d r st) = timers st"
  "listeners (priv_send env d r st) = listeners st"
  "nreq (priv_send env d r st) = nreq st"
  "origin (priv_send env d r st) = origin st"
  by (simp_all add: priv_send_def Let_def split: option.splits)

lemma priv_send_trace:
  "trace (priv_send env d r st) = trace st @
     (if \<not> connected st \<or> ws st = None then [SendRej r NotConnected] else []) @
     (case ws st of
        None \<Rightarrow> [SendRej r TypeError]
      | Some s \<Rightarrow> (case JSON_stringify env (heap st) d of
                     None \<Rightarrow> [SendRej r TypeError]
                   | Some text \<Rightarrow> [WsSend s text]))"
  by (simp add: priv_send_def Let_def split: option.splits)

lemma getCmdRecv_fields:
  assumes "getCmdRecv env c t now r st = Some st'"
  shows "heap st' = heap st" "trace st' = trace st" "nreq st' = nreq st" "origin st' = origin st"
    "connected st' = connected st" "ws st' = ws st"
  using assms by (auto simp: getCmdRecv_def Let_def split: if_splits)

lemma asyncSend_heap:
  assumes "asyncSend env (HRef f) t uuid now st = Inr (r, st')"
  shows "f < length (heap st) \<and> r = nreq st \<and>
         heap st' = (heap st)[f := (if \<not> truthyH (hfield (heap st ! f) ''cmdId'')
                                    then hput ''cmdId'' (HStr uuid) (heap st ! f)
                                    else heap st ! f)]"
  using assms
  by (auto simp: asyncSend_def Let_def priv_send_fields getCmdRecv_fields
      split: if_splits option.splits)

lemma asyncSend_unfold:
  assumes "asyncSend env (HRef f) t uuid now st = Inr (r, st')"
  shows "\<exists>st2. st' = priv_send env (HRef f) r st2 \<and> trace st2 = trace st \<and>
           connected st2 = connected st \<and> ws st2 = ws st \<and> heap st' = heap st2"
proof -
  define fs' where "fs' =
    (if \<not> truthyH (hfield (heap st ! f) ''cmdId'')
     then hput ''cmdId'' (HStr uuid) (heap st ! f) else heap st ! f)"
  define st1 where "st1 = st\<lparr>heap := (heap st)[f := fs'], nreq := Suc (nreq st)\<rparr>"
  define g where "g = getCmdRecv env (hfield fs' ''cmdId'')
    (case t of None \<Rightarrow> 30000 | Some t \<Rightarrow> t) now (nreq st) st1"
  define st2 where "st2 = (case g of None \<Rightarrow> st1 | Some s \<Rightarrow> s)"
  have f: "f < length (heap st)"
    using assms by (simp add: asyncSend_def split: if_splits)
  have "asyncSend env (HRef f) t uuid now st = Inr (nreq st, priv_send env (HRef f) (nreq st) st2)"
    unfolding st2_def g_def st1_def fs'_def using f
    by (simp add: asyncSend_def Let_def del: hfield.simps)
  with assms have r: "r = nreq st" and st': "st' = priv_send env (HRef f) (nreq st) st2"
    by auto
  have g: "trace st2 = trace st \<and> connected st2 = connected st \<and> ws st2 = ws st"
  proof (cases g)
    case None
    then show ?thesis by (simp add: st2_def st1_def)
  next
    case (Some s)
    have "getCmdRecv env (hfield fs' ''cmdId'') (case t of None \<Rightarrow> 30000 | Some t \<Rightarrow> t)
            now (nreq st) st1 = Some s"
      using Some by (simp only: g_def)
    from getCmdRecv_fields [OF this] have
      "trace s = trace st1" "connected s = connected st1" "ws s = ws st1" by blast+
    then show ?thesis by (simp add: st2_def Some st1_def)
  qed
  have h: "heap st' = heap st2" by (simp only: st' priv_send_fields)
  show ?thesis
    by (rule exI [of _ st2]) (simp only: st' r g priv_send_fields simp_thms)
qed

lemma asyncSend_trace:
  assumes "asyncSend env (HRef f) t uuid now st = Inr (r, st')"
  shows "trace st' = trace st @
     (if \<not> connected st \<or> ws st = None then [SendRej r NotConnected] else []) @
     (case ws st of
        None \<Rightarrow> [SendRej r TypeError]
      | Some s \<Rightarrow> (case JSON_stringify env (heap st') (HRef f) of
                     None \<Rightarrow> [SendRej r TypeError]
                   | Some text \<Rightarrow> [WsSend s text]))"
proof -
  obtain st2 where a: "st' = priv_send env (HRef f) r st2"
    and b: "trace st2 = trace st" "connected st2 = connected st" "ws st2 = ws st"
    and h: "heap st' = heap st2"
    using asyncSend_unfold [OF assms] by blast
  have "trace st' = trace (priv_send env (HRef f) r st2)" by (simp only: a)
  then show ?thesis
    unfolding h by (simp add: priv_send_trace b)
qed

lemma sendCmd_heap:
  assumes "sendCmd env cmd data uuid now st = Inr (r, st')"
  shows "\<exists>h1. cleanRaw env (fst (payloadOf data (heap st))) (snd (payloadOf data (heap st))) = Some h1 \<and>
           heap st' = h1 @ [[(''type'', HStr ''user''), (''cmd'', HStr cmd),
                            (''data'', fst (payloadOf data (heap st))), (''cmdId'', HStr uuid)]]"
proof -
  let ?d = "fst (payloadOf data (heap st))" and ?h0 = "snd (payloadOf data (heap st))"
  obtain h1 where h1: "cleanRaw env ?d ?h0 = Some h1"
    using assms by (auto simp: sendCmd_def payloadOf_def alloc_def Let_def split: option.splits if_splits)
  let ?fr = "[(''type'', HStr ''user''), (''cmd'', HStr cmd), (''data'', ?d)]"
  obtain st2 where a: "asyncSend env (HRef (length h1)) None uuid now (st\<lparr>heap := h1 @ [?fr]\<rparr>) = Inr (r, st2)"
    and st': "st' = st2\<lparr>origin := (origin st2)(r \<mapsto> cmd)\<rparr>"
    using assms h1
    by (auto simp: sendCmd_def payloadOf_def alloc_def Let_def split: option.splits if_splits sum.splits)
  from asyncSend_heap [OF a] have "heap st2 = h1 @ [?fr @ [(''cmdId'', HStr uuid)]]"
    by simp
  with h1 st' show ?thesis by simp
qed


text \<open>
  C4 as amended. When \<^verbatim>\<open>sendCmd\<close> returns a promise, the frame it has created is the
  object \<^verbatim>\<open>{type: 'user', cmd, data, cmdId}\<close>: \<^verbatim>\<open>data\<close> is the payload (a new empty
  object when the caller gave none), \<^verbatim>\<open>cmdId\<close> is the generated identifier and is a
  property of the frame, beside \<^verbatim>\<open>data\<close>. Every other object is as the cleaning of
  \<^verbatim>\<open>rawMsgData\<close> left it, so the payload is given no \<^verbatim>\<open>cmdId\<close>. With a socket, what
  \<^verbatim>\<open>ws.send\<close> gets is \<^verbatim>\<open>JSON.stringify\<close> of this frame.
\<close>

theorem sendCmd_frame:
  assumes "sendCmd env cmd data uuid now st = Inr (r, st')"
  shows "\<exists>h1. cleanRaw env (fst (payloadOf data (heap st))) (snd (payloadOf data (heap st))) = Some h1 \<and>
           heap st' = h1 @ [[(''type'', HStr ''user''), (''cmd'', HStr cmd),
                            (''data'', fst (payloadOf data (heap st))), (''cmdId'', HStr uuid)]] \<and>
           (\<forall>s. ws st = Some s \<longrightarrow>
              trace st' = trace st @ (if connected st then [] else [SendRej r NotConnected]) @
                (case JSON_stringify env (heap st') (HRef (length h1)) of
                   None \<Rightarrow> [SendRej r TypeError]
                 | Some text \<Rightarrow> [WsSend s text]))"
proof -
  let ?d = "fst (payloadOf data (heap st))" and ?h0 = "snd (payloadOf data (heap st))"
  obtain h1 where h1: "cleanRaw env ?d ?h0 = Some h1"
    and hp: "heap st' = h1 @ [[(''type'', HStr ''user''), (''cmd'', HStr cmd),
                            (''data'', ?d), (''cmdId'', HStr uuid)]]"
    using sendCmd_heap [OF assms] by blast
  let ?fr = "[(''type'', HStr ''user''), (''cmd'', HStr cmd), (''data'', ?d)]"
  obtain st2 where a: "asyncSend env (HRef (length h1)) None uuid now (st\<lparr>heap := h1 @ [?fr]\<rparr>) = Inr (r, st2)"
    and st': "st' = st2\<lparr>origin := (origin st2)(r \<mapsto> cmd)\<rparr>"
    using assms h1
    by (auto simp: sendCmd_def payloadOf_def alloc_def Let_def split: option.splits if_splits sum.splits)
  have "trace st' = trace st @ (if connected st then [] else [SendRej r NotConnected]) @
                (case JSON_stringify env (heap st') (HRef (length h1)) of
                   None \<Rightarrow> [SendRej r TypeError]
                 | Some text \<Rightarrow> [WsSend s text])" if "ws st = Some s" for s
    using asyncSend_trace [OF a] that st' by simp
  with h1 hp show ?thesis by blast
qed

theorem sendCmd_frame_witness:
  "\<exists>r st'. sendCmd (exampleBuiltins []) ''getMyInfo'' HUndefined ''X'' 2000
              (onOpen 0 (snd (callStart 1000 1000 (newClient [])))) = Inr (r, st') \<and>
     heap st' = [[], [(''type'', HStr ''user''), (''cmd'', HStr ''getMyInfo''),
                      (''data'', HRef 0), (''cmdId'', HStr ''X'')]] \<and>
     trace st' = [NewSocket 0, Emit ''open'' [], WsSend 0 []]"
proof -
  let ?st = "onOpen 0 (snd (callStart 1000 1000 (newClient [])))"
  have f: "heap ?st = []" "ws ?st = Some 0" "connected ?st"
    "trace ?st = [NewSocket 0, Emit ''open'' []]"
    by (simp_all add: onOpen_def emit_def callStart_def start_def newClient_def Let_def)
  obtain r st' where s: "sendCmd (exampleBuiltins []) ''getMyInfo'' HUndefined ''X'' 2000 ?st = Inr (r, st')"
    by (simp add: sendCmd_def alloc_def cleanRaw_def asyncSend_def Let_def f)
  have c: "cleanRaw (exampleBuiltins []) (HRef 0) [[]] = Some [[]]"
    by (simp add: cleanRaw_def)
  have js: "JSON_stringify (exampleBuiltins []) h v = Some []" for h v
    by (simp add: exampleBuiltins_def)
  from sendCmd_frame [OF s] have
    "heap st' = [[], [(''type'', HStr ''user''), (''cmd'', HStr ''getMyInfo''),
                      (''data'', HRef 0), (''cmdId'', HStr ''X'')]] \<and>
     trace st' = [NewSocket 0, Emit ''open'' [], WsSend 0 []]"
    by (auto simp: payloadOf_def f c js)
  with s show ?thesis by blast
qed

text \<open>
  C4 as stated fails: after \<^verbatim>\<open>sendCmd('sendMsg', {content: 'hi'})\<close> the payload (at
  address 0) has no \<^verbatim>\<open>cmdId\<close>; the frame (at address 1) has the payload as its
  \<^verbatim>\<open>data\<close> and the identifier as its own \<^verbatim>\<open>cmdId\<close>.
\<close>

theorem sendCmd_frame_counterexample:
  "fieldAfter 0 ''cmdId'' (sendCmd (exampleBuiltins []) ''sendMsg'' (HRef 0) ''X'' 2000
       (newClient [[(''content'', HStr ''hi'')]])) = Some HUndefined \<and>
   fieldAfter 1 ''data'' (sendCmd (exampleBuiltins []) ''sendMsg'' (HRef 0) ''X'' 2000
       (newClient [[(''content'', HStr ''hi'')]])) = Some (HRef 0) \<and>
   fieldAfter 1 ''cmdId'' (sendCmd (exampleBuiltins []) ''sendMsg'' (HRef 0) ''X'' 2000
       (newClient [[(''content'', HStr ''hi'')]])) = Some (HStr ''X'')"
  by (simp add: fieldAfter_def sendCmd_def alloc_def cleanRaw_def asyncSend_def Let_def newClient_def
      priv_send_fields getCmdRecv_def)

section \<open>What sending does to the caller's objects\<close>

lemma map_of_hput: "map_of (hput k v fs) = (map_of fs)(k \<mapsto> v)"
  by (induction fs) (auto simp: fun_eq_iff)

lemma hfield_hput: "hfield (hput k v fs) k' = (if k' = k then v else hfield fs k')"
  by (simp add: map_of_hput)

lemma map_of_hdelete: "map_of (hdelete k fs) = (map_of fs)(k := None)"
  by (induction fs) (auto simp: hdelete_def fun_eq_iff)

lemma hfield_hdelete: "hfield (hdelete k fs) k' = (if k' = k then HUndefined else hfield fs k')"
  by (simp add: map_of_hdelete)

lemma cleanRaw_raw:
  assumes fr: "\<forall>h v. \<exists>ext. fst (toUnderLine env h v) = h @ ext"
    and a: "a < length h" and raw: "hfield (h ! a) ''rawMsgData'' = HRef b" and b: "b < length h"
    and c: "cleanRaw env (HRef a) h = Some h1"
  shows "length h \<le> length h1"
    and "hfield (h1 ! b) ''data'' = HUndefined"
    and "a \<noteq> b \<Longrightarrow> h1 ! b = hdelete ''data'' (h ! b)"
    and "hfield (h1 ! a) ''rawMsgData'' = snd (toUnderLine env (h[b := hdelete ''data'' (h ! b)]) (HRef b))"
proof -
  let ?h = "h[b := hdelete ''data'' (h ! b)]"
  obtain ext where e: "fst (toUnderLine env ?h (HRef b)) = ?h @ ext"
    using fr by blast
  obtain v where t: "toUnderLine env ?h (HRef b) = (?h @ ext, v)"
    using e by (cases "toUnderLine env ?h (HRef b)") simp
  have h1: "h1 = (?h @ ext)[a := hput ''rawMsgData'' v ((?h @ ext) ! a)]"
    using c a raw b by (simp add: cleanRaw_def clearRawMsg_def Let_def t)
  show "length h \<le> length h1" by (simp add: h1)
  show "hfield (h1 ! b) ''data'' = HUndefined"
    using a b by (cases "a = b") (simp_all add: h1 nth_append hfield_hput hfield_hdelete del: hfield.simps)
  show "h1 ! b = hdelete ''data'' (h ! b)" if "a \<noteq> b"
    using a b that by (simp add: h1 nth_append)
  show "hfield (h1 ! a) ''rawMsgData'' = snd (toUnderLine env ?h (HRef b))"
    using a b by (simp add: h1 t nth_append hfield_hput del: hfield.simps)
qed

text \<open>
  C10. Provided \<^verbatim>\<open>Helper.toUnderLine\<close> only creates objects (it leaves those that exist
  as they are): after \<^verbatim>\<open>sendCmd\<close> with a payload whose \<^verbatim>\<open>rawMsgData\<close> is an object, that
  object, which is the caller's, has no \<^verbatim>\<open>data\<close> property any more, and the payload's
  \<^verbatim>\<open>rawMsgData\<close> is what \<^verbatim>\<open>Helper.toUnderLine\<close> returned for it; after \<^verbatim>\<open>asyncSend\<close> with
  an object without a truthy \<^verbatim>\<open>cmdId\<close>, the object has the generated \<^verbatim>\<open>cmdId\<close>; and
  after \<^verbatim>\<open>getMsgImage\<close> the object the caller passed has lost its \<^verbatim>\<open>data\<close>.
\<close>

theorem sendCmd_mutates:
  assumes "\<forall>h v. \<exists>ext. fst (toUnderLine env h v) = h @ ext"
  shows "(sendCmd env cmd (HRef a) uuid now st = Inr (r, st') \<and> a < length (heap st) \<and>
          hfield (heap st ! a) ''rawMsgData'' = HRef b \<and> b < length (heap st) \<longrightarrow>
            hfield (heap st' ! b) ''data'' = HUndefined \<and>
            (a \<noteq> b \<longrightarrow> heap st' ! b = hdelete ''data'' (heap st ! b)) \<and>
            hfield (heap st' ! a) ''rawMsgData'' =
              snd (toUnderLine env ((heap st)[b := hdelete ''data'' (heap st ! b)]) (HRef b))) \<and>
         (asyncSend env (HRef a) t uuid now st = Inr (r, st') \<and>
          \<not> truthyH (hfield (heap st ! a) ''cmdId'') \<longrightarrow>
            hfield (heap st' ! a) ''cmdId'' = HStr uuid) \<and>
         (getMsgImage env (HRef b) uuid now st = Inr (r, st') \<and> b < length (heap st) \<longrightarrow>
            heap st' ! b = hdelete ''data'' (heap st ! b))"
proof (intro conjI impI)
  assume h: "sendCmd env cmd (HRef a) uuid now st = Inr (r, st') \<and> a < length (heap st) \<and>
          hfield (heap st ! a) ''rawMsgData'' = HRef b \<and> b < length (heap st)"
  then obtain h1 where c: "cleanRaw env (HRef a) (heap st) = Some h1"
    and hp: "heap st' = h1 @ [[(''type'', HStr ''user''), (''cmd'', HStr cmd),
                            (''data'', HRef a), (''cmdId'', HStr uuid)]]"
    using sendCmd_heap [of env cmd "HRef a" uuid now st r st'] by (auto simp: payloadOf_def)
  from h have a: "a < length (heap st)" and raw: "hfield (heap st ! a) ''rawMsgData'' = HRef b"
    and b: "b < length (heap st)" by blast+
  note cr = cleanRaw_raw [OF assms a raw b c]
  have la: "a < length h1" and lb: "b < length h1" using cr(1) a b by linarith+
  show "hfield (heap st' ! b) ''data'' = HUndefined"
    using cr(2) lb by (simp add: hp nth_append del: hfield.simps)
  show "heap st' ! b = hdelete ''data'' (heap st ! b)" if "a \<noteq> b"
    using cr(3) [OF that] lb by (simp add: hp nth_append)
  show "hfield (heap st' ! a) ''rawMsgData'' =
              snd (toUnderLine env ((heap st)[b := hdelete ''data'' (heap st ! b)]) (HRef b))"
    using cr(4) la by (simp add: hp nth_append del: hfield.simps)
next
  assume h: "asyncSend env (HRef a) t uuid now st = Inr (r, st') \<and>
          \<not> truthyH (hfield (heap st ! a) ''cmdId'')"
  then have "a < length (heap st)" and "heap st' = (heap st)[a := hput ''cmdId'' (HStr uuid) (heap st ! a)]"
    using asyncSend_heap [of env a t uuid now st r st'] by auto
  then show "hfield (heap st' ! a) ''cmdId'' = HStr uuid"
    by (simp add: hfield_hput del: hfield.simps)
next
  assume h: "getMsgImage env (HRef b) uuid now st = Inr (r, st') \<and> b < length (heap st)"
  let ?p = "length (heap st)"
  let ?h = "heap st @ [[(''rawMsgData'', HRef b)]]"
  let ?st = "st\<lparr>heap := ?h\<rparr>"
  have s: "sendCmd env ''getMsgImage'' (HRef ?p) uuid now ?st = Inr (r, st')"
    using h by (simp add: getMsgImage_def alloc_def)
  obtain h1 where c: "cleanRaw env (HRef ?p) ?h = Some h1"
    and hp: "heap st' = h1 @ [[(''type'', HStr ''user''), (''cmd'', HStr ''getMsgImage''),
                            (''data'', HRef ?p), (''cmdId'', HStr uuid)]]"
    using sendCmd_heap [OF s] by (auto simp: payloadOf_def)
  have a: "?p < length ?h" by simp
  have raw: "hfield (?h ! ?p) ''rawMsgData'' = HRef b" by simp
  have b: "b < length ?h" using h by simp
  note cr = cleanRaw_raw [OF assms a raw b c]
  have ne: "?p \<noteq> b" using h by simp
  have lb: "b < length h1" using cr(1) b by linarith
  show "heap st' ! b = hdelete ''data'' (heap st ! b)"
    using cr(3) [OF ne] lb h by (simp add: hp nth_append)
qed


lemma asyncSend_Inr:
  "f < length (heap st) \<Longrightarrow> \<exists>r st'. asyncSend env (HRef f) t uuid now st = Inr (r, st')"
  by (simp add: asyncSend_def Let_def)

lemma sendCmd_Inr:
  assumes "cleanRaw env (fst (payloadOf data (heap st))) (snd (payloadOf data (heap st))) = Some h1"
  shows "\<exists>r st'. sendCmd env cmd data uuid now st = Inr (r, st')"
proof -
  let ?fr = "[(''type'', HStr ''user''), (''cmd'', HStr cmd), (''data'', fst (payloadOf data (heap st)))]"
  have "\<exists>r st2. asyncSend env (HRef (length h1)) None uuid now (st\<lparr>heap := h1 @ [?fr]\<rparr>) = Inr (r, st2)"
    by (rule asyncSend_Inr) simp
  then obtain r st2 where "asyncSend env (HRef (length h1)) None uuid now (st\<lparr>heap := h1 @ [?fr]\<rparr>) = Inr (r, st2)"
    by blast
  then show ?thesis
    using assms by (auto simp: sendCmd_def payloadOf_def alloc_def Let_def)
qed

theorem sendCmd_mutates_witness:
  "(\<forall>h v. \<exists>ext. fst (toUnderLine (exampleBuiltins []) h v) = h @ ext) \<and>
   (\<exists>r st'. sendCmd (exampleBuiltins []) ''getMsgImage'' (HRef 1) ''X'' 2000
        (newClient [[(''msgId'', HStr ''1''), (''data'', HStr ''big'')], [(''rawMsgData'', HRef 0)]])
          = Inr (r, st') \<and>
      hfield (heap st' ! 0) ''data'' = HUndefined \<and>
      heap st' ! 0 = [(''msgId'', HStr ''1'')] \<and>
      hfield (heap st' ! 1) ''rawMsgData'' = HRef 2) \<and>
   (\<exists>r st'. asyncSend (exampleBuiltins []) (HRef 1) None ''X'' 2000
        (newClient [[(''msgId'', HStr ''1''), (''data'', HStr ''big'')], [(''rawMsgData'', HRef 0)]])
          = Inr (r, st') \<and>
      hfield (heap st' ! 1) ''cmdId'' = HStr ''X'') \<and>
   (\<exists>r st'. getMsgImage (exampleBuiltins []) (HRef 0) ''X'' 2000
        (newClient [[(''msgId'', HStr ''1''), (''data'', HStr ''big'')], [(''rawMsgData'', HRef 0)]])
          = Inr (r, st') \<and>
      heap st' ! 0 = [(''msgId'', HStr ''1'')])"
proof -
  let ?E = "exampleBuiltins []"
  let ?H = "[[(''msgId'', HStr ''1''), (''data'', HStr ''big'')], [(''rawMsgData'', HRef 0)]]"
  have fr: "\<forall>h v. \<exists>ext. fst (toUnderLine ?E h v) = h @ ext"
    by (auto simp: exampleBuiltins_def copyObject_def split: hval.splits)
  have hp: "heap (newClient ?H) = ?H" by (simp add: newClient_def)
  have tu: "toUnderLine ?E [[(''msgId'', HStr ''1'')], [(''rawMsgData'', HRef 0)]] (HRef 0) =
              ([[(''msgId'', HStr ''1'')], [(''rawMsgData'', HRef 0)], [(''msgId'', HStr ''1'')]], HRef 2)"
    by (simp add: exampleBuiltins_def copyObject_def)
  have c1: "cleanRaw ?E (fst (payloadOf (HRef 1) (heap (newClient ?H))))
               (snd (payloadOf (HRef 1) (heap (newClient ?H)))) =
          Some [[(''msgId'', HStr ''1'')], [(''rawMsgData'', HRef 2)], [(''msgId'', HStr ''1'')]]"
    by (simp add: payloadOf_def hp cleanRaw_def clearRawMsg_def hdelete_def tu)
  obtain r1 s1 where 1: "sendCmd ?E ''getMsgImage'' (HRef 1) ''X'' 2000 (newClient ?H) = Inr (r1, s1)"
    using sendCmd_Inr [OF c1] by blast
  have "\<exists>r st'. asyncSend ?E (HRef 1) None ''X'' 2000 (newClient ?H) = Inr (r, st')"
    by (rule asyncSend_Inr) (simp add: hp)
  then obtain r2 s2 where 2: "asyncSend ?E (HRef 1) None ''X'' 2000 (newClient ?H) = Inr (r2, s2)"
    by blast
  have tu3: "toUnderLine ?E [[(''msgId'', HStr ''1'')], [(''rawMsgData'', HRef 0)], [(''rawMsgData'', HRef 0)]] (HRef 0) =
              ([[(''msgId'', HStr ''1'')], [(''rawMsgData'', HRef 0)], [(''rawMsgData'', HRef 0)],
                [(''msgId'', HStr ''1'')]], HRef 3)"
    by (simp add: exampleBuiltins_def copyObject_def)
  let ?st3 = "(newClient ?H)\<lparr>heap := ?H @ [[(''rawMsgData'', HRef 0)]]\<rparr>"
  have c3: "cleanRaw ?E (fst (payloadOf (HRef 2) (heap ?st3))) (snd (payloadOf (HRef 2) (heap ?st3))) =
          Some [[(''msgId'', HStr ''1'')], [(''rawMsgData'', HRef 0)], [(''rawMsgData'', HRef 3)],
                [(''msgId'', HStr ''1'')]]"
    by (simp add: payloadOf_def cleanRaw_def clearRawMsg_def hdelete_def tu3)
  have "\<exists>r st'. sendCmd ?E ''getMsgImage'' (HRef 2) ''X'' 2000 ?st3 = Inr (r, st')"
    by (rule sendCmd_Inr [OF c3])
  moreover have "getMsgImage ?E (HRef 0) ''X'' 2000 (newClient ?H) =
      sendCmd ?E ''getMsgImage'' (HRef 2) ''X'' 2000 ?st3"
    by (simp add: getMsgImage_def alloc_def hp numeral_2_eq_2)
  ultimately obtain r3 s3 where 3: "getMsgImage ?E (HRef 0) ''X'' 2000 (newClient ?H) = Inr (r3, s3)"
    by metis
  have a: "hfield (heap s1 ! 0) ''data'' = HUndefined \<and> heap s1 ! 0 = [(''msgId'', HStr ''1'')] \<and>
      hfield (heap s1 ! 1) ''rawMsgData'' = HRef 2"
    using sendCmd_mutates [OF fr, where cmd = "''getMsgImage''" and a = 1 and b = 0 and uuid = "''X''"
        and now = 2000 and st = "newClient ?H" and r = r1 and st' = s1] 1
    by (simp add: hp hdelete_def tu)
  have b: "hfield (heap s2 ! 1) ''cmdId'' = HStr ''X''"
    using sendCmd_mutates [OF fr, where a = 1 and uuid = "''X''" and t = None
        and now = 2000 and st = "newClient ?H" and r = r2 and st' = s2] 2
    by (simp add: hp)
  have c: "heap s3 ! 0 = [(''msgId'', HStr ''1'')]"
    using sendCmd_mutates [OF fr, where b = 0 and uuid = "''X''"
        and now = 2000 and st = "newClient ?H" and r = r3 and st' = s3] 3
    by (simp add: hp hdelete_def)
  from fr 1 2 3 a b c show ?thesis by blast
qed

section \<open>Each request is completed at most once\<close>

lemma settlements_append: "settlements r (xs @ ys) = settlements r xs + settlements r ys"
  by (simp add: settlements_def)

lemma asyncResults_append: "asyncResults r (xs @ ys) = asyncResults r xs @ asyncResults r ys"
  by (induction r xs rule: asyncResults.induct) simp_all

lemma settlements_neutral: "list_all neutral as \<Longrightarrow> settlements r as = 0"
proof (induction as)
  case Nil
  then show ?case by (simp add: settlements_def)
next
  case (Cons a as)
  then show ?case by (cases a) (simp_all add: settlements_def)
qed

lemma asyncResults_neutral: "list_all neutral as \<Longrightarrow> asyncResults r as = []"
proof (induction as)
  case Nil
  then show ?case by simp
next
  case (Cons a as)
  then show ?case by (cases a) simp_all
qed

lemma guarded_append: "guarded p (xs @ ys) = (guarded p xs \<and> guarded (lastOf p xs) ys)"
proof (induction p xs rule: guarded.induct)
  case (1 p)
  then show ?case by (simp add: lastOf_def)
qed (auto simp: lastOf_def)

lemma guarded_neutral: "list_all neutral as \<Longrightarrow> guarded p as"
proof (induction as arbitrary: p)
  case Nil
  then show ?case by simp
next
  case (Cons a as)
  then show ?case by (cases a) simp_all
qed

lemma inv_neutral:
  assumes "consistent ls tm n tr" and "list_all neutral as"
  shows "consistent ls tm n (tr @ as)"
  using assms
  by (simp add: consistent_def settlements_append asyncResults_append settlements_neutral
      asyncResults_neutral guarded_append guarded_neutral)

lemma Inv_quiet: "Inv st \<Longrightarrow> quiet st st' \<Longrightarrow> Inv st'"
  by (auto simp: Inv_def quiet_def inv_neutral)

lemma quiet_refl: "quiet st st"
  by (simp add: quiet_def)

lemma quiet_trans: "quiet a b \<Longrightarrow> quiet b c \<Longrightarrow> quiet a c"
  by (auto simp: quiet_def)

lemma quiet_emit: "quiet st (emit n a st)"
  by (simp add: quiet_def emit_def)

lemma quiet_emitError: "quiet st (snd (emitError e st))"
  by (simp add: emitError_def quiet_emit quiet_refl)

lemma quiet_subscribeError: "quiet st (subscribeError st)"
  by (simp add: quiet_def subscribeError_def)

lemma quiet_pushItem: "pushItem env x st = Some st' \<Longrightarrow> quiet st st'"
  by (cases x) (auto simp: Let_def quiet_emit quiet_refl split: if_splits)

lemma quiet_pushAll: "quiet st (snd (pushAll env xs st))"
proof (induction xs arbitrary: st)
  case Nil
  then show ?case by (simp add: quiet_refl)
next
  case (Cons x xs)
  show ?case
  proof (cases "pushItem env x st")
    case None
    then show ?thesis by (simp add: quiet_refl)
  next
    case (Some st')
    from quiet_pushItem [OF Some] Cons.IH [of st'] have "quiet st (snd (pushAll env xs st'))"
      by (rule quiet_trans)
    with Some show ?thesis by simp
  qed
qed

lemma quiet_userEvent: "quiet st (snd (userEvent env fs st))"
  by (simp add: userEvent_def Let_def quiet_emit quiet_emitError quiet_refl quiet_pushAll
      del: pushAll.simps split: option.splits jsval.splits list.splits)

lemma quiet_priv_send: "quiet st (priv_send env d r st)"
  by (simp add: quiet_def priv_send_def Let_def split: option.splits)

lemma quiet_sendCallback: "quiet st (sendCallback r e st)"
  by (simp add: quiet_def sendCallback_def split: option.splits)

lemma quiet_start: "quiet st (snd (callStart now now' st))"
  by (simp add: quiet_def callStart_def start_def Let_def split: option.splits)

lemma quiet_onOpen: "quiet st (onOpen s st)"
  by (simp add: quiet_def onOpen_def emit_def)

lemma quiet_onClose: "quiet st (onClose s st)"
  by (simp add: quiet_def onClose_def emit_def)

lemma fold_listener_proj:
  "listeners (fold (listener d) rs s) = listeners s"
  "nreq (fold (listener d) rs s) = nreq s"
  "timers (fold (listener d) rs s) = (\<lambda>r. if r \<in> set rs then None else timers s r)"
  "trace (fold (listener d) rs s) = trace s @ concat (map (\<lambda>r. [ClearTimeout r, RecvRes r d]) rs)"
proof (induction rs arbitrary: s)
  case Nil
  {
    case 1 show ?case by simp
  next
    case 2 show ?case by simp
  next
    case 3 show ?case by simp
  next
    case 4 show ?case by simp
  }
next
  case (Cons x xs)
  {
    case 1 show ?case by (simp add: Cons.IH) (simp add: listener_def)
  next
    case 2 show ?case by (simp add: Cons.IH) (simp add: listener_def)
  next
    case 3 show ?case by (simp add: Cons.IH) (auto simp: listener_def fun_eq_iff)
  next
    case 4 show ?case by (simp add: Cons.IH) (simp add: listener_def)
  }
qed

lemma fold_asyncThen_proj:
  "listeners (fold (asyncThen d) rs s) = listeners s"
  "nreq (fold (asyncThen d) rs s) = nreq s"
  "timers (fold (asyncThen d) rs s) = timers s"
  "trace (fold (asyncThen d) rs s) =
     trace s @ (case getProp d ''data'' of None \<Rightarrow> [] | Some v \<Rightarrow> map (\<lambda>r. AsyncRes r v) rs)"
proof (induction rs arbitrary: s)
  case Nil
  {
    case 1 show ?case by simp
  next
    case 2 show ?case by simp
  next
    case 3 show ?case by simp
  next
    case 4 show ?case by (simp split: option.splits)
  }
next
  case (Cons x xs)
  {
    case 1 show ?case by (simp add: Cons.IH) (simp add: asyncThen_def split: option.splits)
  next
    case 2 show ?case by (simp add: Cons.IH) (simp add: asyncThen_def split: option.splits)
  next
    case 3 show ?case by (simp add: Cons.IH) (simp add: asyncThen_def split: option.splits)
  next
    case 4 show ?case by (simp add: Cons.IH) (simp add: asyncThen_def split: option.splits)
  }
qed

lemma quiet_cmdThen: "quiet s (cmdThen d r s)"
  by (simp add: cmdThen_def quiet_emit quiet_refl split: option.splits)

lemma quiet_fold_cmdThen: "quiet s (fold (cmdThen d) rs s)"
proof (induction rs arbitrary: s)
  case Nil
  then show ?case by (simp add: quiet_refl)
next
  case (Cons x xs)
  from quiet_cmdThen [of s d x] Cons.IH [of "cmdThen d x s"] show ?case
    by (simp add: quiet_trans)
qed

lemma settlements_listeners:
  "distinct rs \<Longrightarrow>
   settlements r (concat (map (\<lambda>r. [ClearTimeout r, RecvRes r d]) rs)) = (if r \<in> set rs then 1 else 0)"
  by (induction rs) (auto simp: settlements_def)

lemma asyncResults_listeners:
  "asyncResults r (concat (map (\<lambda>r. [ClearTimeout r, RecvRes r d]) rs)) = []"
  by (induction rs) simp_all

lemma guarded_listeners: "guarded p (concat (map (\<lambda>r. [ClearTimeout r, RecvRes r d]) rs))"
  by (induction rs arbitrary: p) simp_all

lemma settlements_asyncs: "settlements r (map (\<lambda>r. AsyncRes r v) rs) = 0"
  by (induction rs) (simp_all add: settlements_def)

lemma asyncResults_asyncs:
  "distinct rs \<Longrightarrow>
   asyncResults r (map (\<lambda>r. AsyncRes r v) rs) = (if r \<in> set rs then [v] else [])"
  by (induction rs) auto

lemma guarded_asyncs: "guarded p (map (\<lambda>r. AsyncRes r v) rs)"
  by (induction rs arbitrary: p) simp_all

lemma inv_Suc: "consistent ls tm n tr \<Longrightarrow> consistent ls tm (Suc n) tr"
  unfolding consistent_def by (meson Suc_leD less_Suc_eq)

lemma inv_register:
  assumes "consistent ls tm n tr"
  shows "consistent (ls(N := ls N @ [n])) (tm(n \<mapsto> (due, N, t))) (Suc n) tr"
proof -
  have old: "r < n" if "r \<in> set (ls name)" for r name
    using assms that unfolding consistent_def by (metis option.distinct(1))
  have 1: "\<exists>due' t'. (tm(n \<mapsto> (due, N, t))) r = Some (due', name, t')"
    if "r \<in> set ((ls(N := ls N @ [n])) name)" for name r
  proof (cases "r = n")
    case True
    with that old [of n name] have "name = N" by (cases "name = N") auto
    with True show ?thesis by simp
  next
    case False
    with that have "r \<in> set (ls name)" by (cases "name = N") auto
    with assms False show ?thesis unfolding consistent_def by auto
  qed
  have 2: "r < Suc n \<and> settlements r tr = 0 \<and> asyncResults r tr = []"
    if "(tm(n \<mapsto> (due, N, t))) r \<noteq> None" for r
  proof (cases "r = n")
    case True
    with assms show ?thesis unfolding consistent_def by auto
  next
    case False
    with that have "tm r \<noteq> None" by simp
    with assms have "r < n \<and> settlements r tr = 0 \<and> asyncResults r tr = []"
      unfolding consistent_def by blast
    then show ?thesis by simp
  qed
  have 3: "distinct ((ls(N := ls N @ [n])) name)" for name
  proof -
    have "n \<notin> set (ls N)" using old [of n N] by auto
    moreover have "distinct (ls name)" "distinct (ls N)" using assms unfolding consistent_def by blast+
    ultimately show ?thesis by simp
  qed
  have 4: "settlements r tr \<le> 1 \<and> length (asyncResults r tr) \<le> 1" for r
    using assms unfolding consistent_def by blast
  have 5: "settlements r tr = 0 \<and> asyncResults r tr = []" if "Suc n \<le> r" for r
    using assms that unfolding consistent_def by (meson Suc_leD)
  have 6: "guarded None tr" using assms unfolding consistent_def by blast
  show ?thesis
    unfolding consistent_def using 1 2 3 4 5 6 by blast
qed

lemma inv_timeout:
  assumes "consistent ls tm n tr" and r: "tm r = Some (due, N, t)"
  shows "consistent (ls(N := [])) (tm(r := None)) n (tr @ [RemoveAllListeners N, RecvRej r e])"
proof -
  let ?new = "[RemoveAllListeners N, RecvRej r e]"
  have rn: "r < n" and r0: "settlements r tr = 0" "asyncResults r tr = []"
    using assms unfolding consistent_def by (metis option.distinct(1))+
  have s: "settlements q ?new = (if q = r then 1 else 0)" for q
    by (simp add: settlements_def)
  have a: "asyncResults q ?new = []" for q by simp
  have 1: "\<exists>due' t'. (tm(r := None)) q = Some (due', name, t')"
    if "q \<in> set ((ls(N := [])) name)" for name q
  proof -
    from that have ne: "name \<noteq> N" and q: "q \<in> set (ls name)" by (auto split: if_splits)
    from assms q obtain due' t' where t: "tm q = Some (due', name, t')"
      unfolding consistent_def by blast
    with r ne have "q \<noteq> r" by auto
    with t show ?thesis by simp
  qed
  have 2: "q < n \<and> settlements q (tr @ ?new) = 0 \<and> asyncResults q (tr @ ?new) = []"
    if "(tm(r := None)) q \<noteq> None" for q
  proof -
    from that have qr: "q \<noteq> r" and "tm q \<noteq> None" by (auto split: if_splits)
    with assms have "q < n \<and> settlements q tr = 0 \<and> asyncResults q tr = []"
      unfolding consistent_def by blast
    with qr show ?thesis by (simp add: settlements_append asyncResults_append s)
  qed
  have 3: "distinct ((ls(N := [])) name)" for name
    using assms unfolding consistent_def by simp
  have 4: "settlements q (tr @ ?new) \<le> 1 \<and> length (asyncResults q (tr @ ?new)) \<le> 1" for q
  proof (cases "q = r")
    case True
    with r0 show ?thesis by (simp add: settlements_append asyncResults_append s)
  next
    case False
    moreover from assms have "settlements q tr \<le> 1 \<and> length (asyncResults q tr) \<le> 1"
      unfolding consistent_def by blast
    ultimately show ?thesis by (simp add: settlements_append asyncResults_append s)
  qed
  have 5: "settlements q (tr @ ?new) = 0 \<and> asyncResults q (tr @ ?new) = []" if "n \<le> q" for q
  proof -
    from that rn have "q \<noteq> r" by auto
    moreover from assms that have "settlements q tr = 0 \<and> asyncResults q tr = []"
      unfolding consistent_def by blast
    ultimately show ?thesis by (simp add: settlements_append asyncResults_append s)
  qed
  have 6: "guarded None (tr @ ?new)"
    using assms unfolding consistent_def by (simp add: guarded_append)
  show ?thesis
    unfolding consistent_def using 1 2 3 4 5 6 by blast
qed

lemma inv_emitRet:
  assumes "consistent ls tm n tr" and es: "list_all neutral es"
  shows "consistent (ls(N := [])) (\<lambda>r. if r \<in> set (ls N) then None else tm r) n
           (tr @ concat (map (\<lambda>r. [ClearTimeout r, RecvRes r d]) (ls N)) @
              (case v of None \<Rightarrow> [] | Some w \<Rightarrow> map (\<lambda>r. AsyncRes r w) (ls N)) @ es)"
proof -
  let ?rs = "ls N"
  let ?T1 = "concat (map (\<lambda>r. [ClearTimeout r, RecvRes r d]) ?rs)"
  let ?T2 = "case v of None \<Rightarrow> [] | Some w \<Rightarrow> map (\<lambda>r. AsyncRes r w) ?rs"
  let ?tr = "tr @ ?T1 @ ?T2 @ es"
  have d: "distinct ?rs" using assms unfolding consistent_def by blast
  have rs: "tm r \<noteq> None \<and> (\<exists>due t. tm r = Some (due, N, t))" if "r \<in> set ?rs" for r
    using assms that unfolding consistent_def by fastforce
  have rs0: "r < n \<and> settlements r tr = 0 \<and> asyncResults r tr = []" if "r \<in> set ?rs" for r
    using assms rs [OF that] unfolding consistent_def by blast
  have s: "settlements r ?tr = settlements r tr + (if r \<in> set ?rs then 1 else 0)" for r
    by (cases v)
      (simp_all add: settlements_append settlements_listeners [OF d] settlements_asyncs
        settlements_neutral [OF es])
  have a: "length (asyncResults r ?tr) \<le> length (asyncResults r tr) + (if r \<in> set ?rs then 1 else 0)"
    and a0: "r \<notin> set ?rs \<Longrightarrow> asyncResults r ?tr = asyncResults r tr" for r
    by (cases v; simp add: asyncResults_append asyncResults_listeners asyncResults_asyncs [OF d]
        asyncResults_neutral [OF es])+
  have 1: "\<exists>due t. (if q \<in> set ?rs then None else tm q) = Some (due, name, t)"
    if "q \<in> set ((ls(N := [])) name)" for name q
  proof -
    from that have ne: "name \<noteq> N" and q: "q \<in> set (ls name)" by (auto split: if_splits)
    from assms q obtain due t where t: "tm q = Some (due, name, t)"
      unfolding consistent_def by blast
    with ne rs [of q] have "q \<notin> set ?rs" by auto
    with t show ?thesis by simp
  qed
  have 2: "q < n \<and> settlements q ?tr = 0 \<and> asyncResults q ?tr = []"
    if "(if q \<in> set ?rs then None else tm q) \<noteq> None" for q
  proof -
    from that have q: "q \<notin> set ?rs" and "tm q \<noteq> None" by (auto split: if_splits)
    with assms have "q < n \<and> settlements q tr = 0 \<and> asyncResults q tr = []"
      unfolding consistent_def by blast
    with q show ?thesis by (simp add: s a0)
  qed
  have 3: "distinct ((ls(N := [])) name)" for name
    using assms unfolding consistent_def by simp
  have 4: "settlements q ?tr \<le> 1 \<and> length (asyncResults q ?tr) \<le> 1" for q
  proof (cases "q \<in> set ?rs")
    case True
    from rs0 [OF True] a [of q] True show ?thesis by (simp add: s)
  next
    case False
    moreover from assms have "settlements q tr \<le> 1 \<and> length (asyncResults q tr) \<le> 1"
      unfolding consistent_def by blast
    ultimately show ?thesis by (simp add: s a0)
  qed
  have 5: "settlements q ?tr = 0 \<and> asyncResults q ?tr = []" if "n \<le> q" for q
  proof -
    from that rs0 [of q] have q: "q \<notin> set ?rs" by auto
    moreover from assms that have "settlements q tr = 0 \<and> asyncResults q tr = []"
      unfolding consistent_def by blast
    ultimately show ?thesis by (simp add: s a0)
  qed
  have 6: "guarded None ?tr"
    using assms unfolding consistent_def
    by (cases v)
      (simp_all add: guarded_append guarded_listeners guarded_asyncs guarded_neutral [OF es])
  show ?thesis
    unfolding consistent_def using 1 2 3 4 5 6 by blast
qed

lemma Inv_emitRet: "Inv st \<Longrightarrow> Inv (snd (emitRet N d st))"
proof -
  assume i: "Inv st"
  let ?rs = "listeners st N"
  let ?s0 = "st\<lparr>listeners := (listeners st)(N := [])\<rparr>"
  let ?s1 = "fold (listener d) ?rs ?s0"
  let ?s2 = "fold (asyncThen d) ?rs ?s1"
  let ?s3 = "fold (cmdThen d) ?rs ?s2"
  obtain es where es: "trace ?s3 = trace ?s2 @ es" "list_all neutral es"
    and q: "listeners ?s3 = listeners ?s2" "timers ?s3 = timers ?s2" "nreq ?s3 = nreq ?s2"
    using quiet_fold_cmdThen [of ?s2 d ?rs] unfolding quiet_def by blast
  have l: "listeners ?s3 = (listeners st)(N := [])"
    by (simp only: q fold_asyncThen_proj fold_listener_proj) simp
  have n: "nreq ?s3 = nreq st"
    by (simp only: q fold_asyncThen_proj fold_listener_proj) simp
  have t: "timers ?s3 = (\<lambda>r. if r \<in> set ?rs then None else timers st r)"
    by (simp only: q fold_asyncThen_proj fold_listener_proj) (simp add: fun_eq_iff)
  have tr: "trace ?s3 = trace st @ concat (map (\<lambda>r. [ClearTimeout r, RecvRes r d]) ?rs) @
      (case getProp d ''data'' of None \<Rightarrow> [] | Some w \<Rightarrow> map (\<lambda>r. AsyncRes r w) ?rs) @ es"
    by (simp only: es fold_asyncThen_proj fold_listener_proj) simp
  have "Inv ?s3"
    unfolding Inv_def l n t tr using i es(2) unfolding Inv_def by (rule inv_emitRet)
  then show ?thesis by (simp add: emitRet_def Let_def)
qed

lemma Inv_timeoutFired: "Inv st \<Longrightarrow> Inv (timeoutFired r now st)"
proof (cases "timers st r")
  case None
  assume "Inv st"
  with None show ?thesis by (simp add: timeoutFired_def)
next
  case (Some x)
  assume i: "Inv st"
  obtain due N t where x: "x = (due, N, t)" by (cases x)
  show ?thesis
  proof (cases "now < due")
    case True
    with Some x i show ?thesis by (simp add: timeoutFired_def)
  next
    case False
    have "consistent ((listeners st)(N := [])) ((timers st)(r := None)) (nreq st)
            (trace st @ [RemoveAllListeners N, RecvRej r (TimedOut (t * 1000))])"
      using i Some x unfolding Inv_def by (simp add: inv_timeout)
    with Some x False show ?thesis by (simp add: timeoutFired_def Inv_def)
  qed
qed

lemma Inv_getCmdRecv:
  assumes "consistent (listeners st) (timers st) n (trace st)" and "nreq st = Suc n"
    and "getCmdRecv env c t now n st = Some s"
  shows "Inv s"
proof -
  let ?N = "retNameH env (heap st) c"
  have s: "s = st\<lparr>timers := (timers st)(n \<mapsto> (now + timerDelay (t * 1000), ?N, t)),
                    listeners := (listeners st)(?N := listeners st ?N @ [n])\<rparr>"
    using assms(3) by (simp add: getCmdRecv_def Let_def split: if_splits)
  show ?thesis
    unfolding Inv_def by (simp add: s assms(2) inv_register [OF assms(1)])
qed

lemma Inv_asyncSend:
  assumes i: "Inv st" and a: "asyncSend env d t uuid now st = Inr (r, st')"
  shows "Inv st'"
proof -
  obtain f where d: "d = HRef f" and f: "f < length (heap st)"
    using a by (cases d) (simp_all add: asyncSend_def split: if_splits)
  define fs' where "fs' =
    (if \<not> truthyH (hfield (heap st ! f) ''cmdId'')
     then hput ''cmdId'' (HStr uuid) (heap st ! f) else heap st ! f)"
  define st1 where "st1 = st\<lparr>heap := (heap st)[f := fs'], nreq := Suc (nreq st)\<rparr>"
  define g where "g = getCmdRecv env (hfield fs' ''cmdId'')
    (case t of None \<Rightarrow> 30000 | Some t \<Rightarrow> t) now (nreq st) st1"
  define st2 where "st2 = (case g of None \<Rightarrow> st1 | Some s \<Rightarrow> s)"
  have "asyncSend env (HRef f) t uuid now st = Inr (nreq st, priv_send env (HRef f) (nreq st) st2)"
    unfolding st2_def g_def st1_def fs'_def using f
    by (simp add: asyncSend_def Let_def del: hfield.simps)
  with a d have st': "st' = priv_send env (HRef f) (nreq st) st2"
    by auto
  have i0: "consistent (listeners st1) (timers st1) (nreq st) (trace st1)"
    using i by (simp add: st1_def Inv_def)
  have n1: "nreq st1 = Suc (nreq st)" by (simp add: st1_def)
  have "Inv st2"
  proof (cases g)
    case None
    then show ?thesis
      using inv_Suc [OF i0] by (simp add: st2_def Inv_def n1)
  next
    case (Some s)
    then have "getCmdRecv env (hfield fs' ''cmdId'') (case t of None \<Rightarrow> 30000 | Some t \<Rightarrow> t)
                 now (nreq st) st1 = Some s"
      by (simp only: g_def)
    from Inv_getCmdRecv [OF i0 n1 this] Some show ?thesis by (simp add: st2_def)
  qed
  then show ?thesis
    unfolding st' by (rule Inv_quiet) (rule quiet_priv_send)
qed

lemma Inv_sendCmd:
  assumes i: "Inv st" and a: "sendCmd env cmd data uuid now st = Inr (r, st')"
  shows "Inv st'"
proof -
  obtain h2 f st2 where s: "asyncSend env (HRef f) None uuid now (st\<lparr>heap := h2\<rparr>) = Inr (r, st2)"
    and st': "st' = st2\<lparr>origin := (origin st2)(r \<mapsto> cmd)\<rparr>"
    using a
    by (auto simp: sendCmd_def alloc_def Let_def split: option.splits if_splits sum.splits prod.splits)
  have "Inv (st\<lparr>heap := h2\<rparr>)" using i by (simp add: Inv_def)
  from Inv_asyncSend [OF this s] show ?thesis by (simp add: st' Inv_def)
qed

lemma Inv_dispatch: "Inv st \<Longrightarrow> Inv (snd (dispatch env d st))"
proof -
  assume i: "Inv st"
  let ?st1 = "emit ''msg'' [AVal d] st"
  have i1: "Inv ?st1" using i quiet_emit by (rule Inv_quiet)
  show ?thesis
  proof (cases d)
    case (JObj fs)
    show ?thesis
    proof (cases "getField fs ''type'' = JStr ''cmdRet''")
      case True
      show ?thesis
      proof (cases "truthy (getField fs ''cmdId'')")
        case False
        with True JObj i1 show ?thesis by (simp add: dispatch_def Let_def del: getField.simps)
      next
        case t: True
        let ?r = "emitRet (retName env (getField fs ''cmdId'')) d ?st1"
        have i2: "Inv (snd ?r)" using i1 by (rule Inv_emitRet)
        have i3: "Inv (emit ''warn'' [AErr (NotListened (getField fs ''cmdId''))] (snd ?r))"
          using i2 quiet_emit by (rule Inv_quiet)
        have "snd (dispatch env d st) =
                (if fst ?r then snd ?r
                 else emit ''warn'' [AErr (NotListened (getField fs ''cmdId''))] (snd ?r))"
          using True t JObj
          by (simp add: dispatch_def Let_def split_beta del: getField.simps)
        with i2 i3 show ?thesis by simp
      qed
    next
      case False
      have "Inv (snd (userEvent env fs ?st1))"
        using i1 quiet_userEvent by (rule Inv_quiet)
      moreover have "Inv (emit ''other'' [AVal d] ?st1)"
        using i1 quiet_emit by (rule Inv_quiet)
      ultimately show ?thesis
        using False JObj by (simp add: dispatch_def Let_def del: getField.simps)
    qed
  next
    case JUndefined
    with i1 show ?thesis by (simp add: dispatch_def Let_def)
  next
    case JNull
    with i1 show ?thesis by (simp add: dispatch_def Let_def)
  next
    case (JBool x)
    with Inv_quiet [OF i1 quiet_emit] show ?thesis by (simp add: dispatch_def Let_def)
  next
    case (JNum x)
    with Inv_quiet [OF i1 quiet_emit] show ?thesis by (simp add: dispatch_def Let_def)
  next
    case (JStr x)
    with Inv_quiet [OF i1 quiet_emit] show ?thesis by (simp add: dispatch_def Let_def)
  next
    case (JArr x)
    with Inv_quiet [OF i1 quiet_emit] show ?thesis by (simp add: dispatch_def Let_def)
  qed
qed

lemma Inv_onWsMsg: "Inv st \<Longrightarrow> Inv (snd (onWsMsg env msg st))"
  using Inv_quiet [OF _ quiet_emitError]
  by (simp add: onWsMsg_def Inv_dispatch split: wsdata.splits option.splits)

lemma Inv_step: "Inv st \<Longrightarrow> Inv (step env i st)"
proof (cases i)
  case (CallAsyncSend d t u now)
  assume "Inv st"
  then show ?thesis
    using CallAsyncSend Inv_asyncSend [of st env d t u now]
    by (cases "asyncSend env d t u now st") (auto simp: afterCall_def)
next
  case (CallSendCmd c d u now)
  assume "Inv st"
  then show ?thesis
    using CallSendCmd Inv_sendCmd [of st env c d u now]
    by (cases "sendCmd env c d u now st") (auto simp: afterCall_def)
next
  case (CallStart a b)
  assume "Inv st"
  then show ?thesis using CallStart Inv_quiet [OF _ quiet_start] by simp
next
  case (Frame m)
  assume "Inv st"
  then show ?thesis using Frame by (simp add: Inv_onWsMsg)
next
  case (TimerFires r now)
  assume "Inv st"
  then show ?thesis using TimerFires by (simp add: Inv_timeoutFired)
next
  case (SendCallback r e)
  assume "Inv st"
  then show ?thesis using SendCallback Inv_quiet [OF _ quiet_sendCallback] by simp
next
  case (SocketOpen s)
  assume "Inv st"
  then show ?thesis using SocketOpen Inv_quiet [OF _ quiet_onOpen] by simp
next
  case (SocketClose s)
  assume "Inv st"
  then show ?thesis using SocketClose Inv_quiet [OF _ quiet_onClose] by simp
next
  case SubscribeError
  assume "Inv st"
  then show ?thesis using SubscribeError Inv_quiet [OF _ quiet_subscribeError] by simp
qed

lemma Inv_run: "Inv st \<Longrightarrow> Inv (run env ins st)"
  unfolding run_def by (induction ins arbitrary: st) (simp_all add: Inv_step)

lemma Inv_newClient: "Inv (newClient h)"
  by (simp add: Inv_def consistent_def newClient_def settlements_def)

text \<open>
  C1. Whatever is done to a new client, in whatever order: the promise \<^verbatim>\<open>getCmdRecv\<close>
  made for a request is completed at most once (\<^verbatim>\<open>res\<close> by a reply or \<^verbatim>\<open>rej\<close> by
  the timer, never both), and the promise of \<^verbatim>\<open>asyncSend\<close> is resolved at most
  once; once the first is completed the request has neither a timer nor a
  listener; every \<^verbatim>\<open>rej\<close> of the timer comes right after its
  \<^verbatim>\<open>removeAllListeners\<close>, and every \<^verbatim>\<open>res\<close> of a reply right after the \<^verbatim>\<open>clearTimeout\<close>
  of its request.
\<close>

theorem settled_once:
  "(\<forall>r. settlements r (trace (run env ins (newClient h))) \<le> 1 \<and>
        length (asyncResults r (trace (run env ins (newClient h)))) \<le> 1 \<and>
        (0 < settlements r (trace (run env ins (newClient h))) \<longrightarrow>
           timers (run env ins (newClient h)) r = None \<and>
           (\<forall>name. r \<notin> set (listeners (run env ins (newClient h)) name)))) \<and>
   guarded None (trace (run env ins (newClient h)))"
proof -
  let ?st = "run env ins (newClient h)"
  have i: "consistent (listeners ?st) (timers ?st) (nreq ?st) (trace ?st)"
    using Inv_run [OF Inv_newClient, of env ins h] by (simp add: Inv_def)
  have 1: "settlements r (trace ?st) \<le> 1 \<and> length (asyncResults r (trace ?st)) \<le> 1" for r
    using i unfolding consistent_def by blast
  have 2: "timers ?st r = None" if "0 < settlements r (trace ?st)" for r
  proof (rule ccontr)
    assume "timers ?st r \<noteq> None"
    with i have "settlements r (trace ?st) = 0" unfolding consistent_def by blast
    with that show False by simp
  qed
  have 3: "r \<notin> set (listeners ?st name)" if "0 < settlements r (trace ?st)" for r name
  proof
    assume "r \<in> set (listeners ?st name)"
    with i have "timers ?st r \<noteq> None" unfolding consistent_def by fastforce
    with 2 [OF that] show False by simp
  qed
  have 4: "guarded None (trace ?st)" using i unfolding consistent_def by blast
  show ?thesis using 1 2 3 4 by blast
qed

lemma exampleRun_trace:
  "trace exampleRun =
     [NewSocket 0, Emit ''open'' [], WsSend 0 [],
      Emit ''msg'' [AVal (JObj [(''type'', JStr ''cmdRet''), (''cmdId'', JStr ''X''),
        (''data'', JObj [(''success'', JBool True), (''data'', JObj [(''userName'', JStr ''wxid_1'')])])])],
      ClearTimeout 0,
      RecvRes 0 (JObj [(''type'', JStr ''cmdRet''), (''cmdId'', JStr ''X''),
        (''data'', JObj [(''success'', JBool True), (''data'', JObj [(''userName'', JStr ''wxid_1'')])])]),
      AsyncRes 0 (JObj [(''success'', JBool True), (''data'', JObj [(''userName'', JStr ''wxid_1'')])]),
      Emit ''cmdRet'' [AVal (JStr ''getMyInfo''),
        AVal (JObj [(''success'', JBool True), (''data'', JObj [(''userName'', JStr ''wxid_1'')])])],
      WsSend 0 [],
      RemoveAllListeners ''RET#Y'', RecvRej 1 (TimedOut 30000000)]"
  by (simp add: exampleRun_def exampleInputs_def run_def callStart_def start_def newClient_def
      onOpen_def emit_def afterCall_def sendCmd_def alloc_def cleanRaw_def asyncSend_def
      getCmdRecv_def retNameH_def timerDelay_def priv_send_def exampleBuiltins_def
      onWsMsg_def replyFrame_def normalizeFrame_def parseInner_def parseExtended_def
      camel_user_name dispatch_def emitRet_def retName_def listener_def asyncThen_def
      cmdThen_def timeoutFired_def Let_def del: camel.simps)

theorem settled_once_witness:
  "0 < settlements 0 (trace exampleRun) \<and> 0 < settlements 1 (trace exampleRun) \<and>
   settlements 0 (trace exampleRun) \<le> 1 \<and> settlements 1 (trace exampleRun) \<le> 1 \<and>
   timers exampleRun 0 = None \<and> timers exampleRun 1 = None \<and>
   (\<forall>name. 0 \<notin> set (listeners exampleRun name)) \<and>
   (\<forall>name. 1 \<notin> set (listeners exampleRun name)) \<and>
   guarded None (trace exampleRun)"
proof -
  have s: "0 < settlements 0 (trace exampleRun)" "0 < settlements 1 (trace exampleRun)"
    by (simp_all add: exampleRun_trace settlements_def)
  from settled_once [of "exampleBuiltins [(replyText ''X'', replyFrame ''X'')]" exampleInputs "[]"] s
  show ?thesis unfolding exampleRun_def by blast
qed

section \<open>Failures of the transport and timeouts\<close>

text \<open>
  C2, on the code: a command sent while the socket is still connecting. \<^verbatim>\<open>_send\<close>
  rejects its own promise (line 108) and calls \<^verbatim>\<open>ws.send\<close> all the same; when the
  callback of \<^verbatim>\<open>ws.send\<close> reports an error, \<^verbatim>\<open>_send\<close> rejects again (line 112). Nothing
  is done to the promise \<^verbatim>\<open>asyncSend\<close> returned: the request still waits for a reply,
  with its listener and its timer, set for 30000000 ms after the call.
\<close>

theorem send_failure_pending:
  "trace notConnectedRun =
     [NewSocket 0, SendRej 0 NotConnected, WsSend 0 [], SendRej 0 (SendFailed ''boom'')] \<and>
   asyncResults 0 (trace notConnectedRun) = [] \<and>
   settlements 0 (trace notConnectedRun) = 0 \<and>
   listeners notConnectedRun ''RET#X'' = [0] \<and>
   timers notConnectedRun 0 = Some (30002000, ''RET#X'', 30000)"
  by (simp add: notConnectedRun_def run_def callStart_def start_def newClient_def
      afterCall_def sendCmd_def alloc_def cleanRaw_def asyncSend_def getCmdRecv_def
      retNameH_def timerDelay_def priv_send_def sendCallback_def exampleBuiltins_def
      settlements_def Let_def)

text \<open>
  C3, on the code: \<^verbatim>\<open>asyncSend(frame, 30000)\<close> at time 2000. The timer is set for
  time 30002000, since the delay is \<^verbatim>\<open>timeout * 1000\<close>; at time 32000, the timeout the
  caller gave, nothing happens; at time 30002000 the listener is removed and the
  promise of \<^verbatim>\<open>getCmdRecv\<close> is rejected, and nothing is done to the promise
  \<^verbatim>\<open>asyncSend\<close> returned.
\<close>

theorem timeout_thousandfold:
  "timers timeoutRun 0 = Some (30002000, ''RET#X'', 30000) \<and>
   listeners timeoutRun ''RET#X'' = [0] \<and>
   trace timeoutRun = [NewSocket 0, Emit ''open'' [], WsSend 0 []] \<and>
   trace (timeoutFired 0 32000 timeoutRun) = trace timeoutRun \<and>
   timers (timeoutFired 0 32000 timeoutRun) 0 = Some (30002000, ''RET#X'', 30000) \<and>
   trace (timeoutFired 0 30002000 timeoutRun) =
     [NewSocket 0, Emit ''open'' [], WsSend 0 [],
      RemoveAllListeners ''RET#X'', RecvRej 0 (TimedOut 30000000)] \<and>
   listeners (timeoutFired 0 30002000 timeoutRun) ''RET#X'' = [] \<and>
   asyncResults 0 (trace (timeoutFired 0 30002000 timeoutRun)) = []"
  by (simp add: timeoutRun_def run_def callStart_def start_def newClient_def onOpen_def emit_def
      afterCall_def asyncSend_def getCmdRecv_def retNameH_def timerDelay_def priv_send_def
      timeoutFired_def exampleBuiltins_def Let_def)

end
